theory Spec2Isabelle
  imports Complex_Main
begin

section \<open>Face detection and cropping (src/utils/faceDetection.ts)\<close>

text \<open>
  The module detects one face in an uploaded picture and crops the picture around it.
  A JavaScript number is a binary64 value: a finite number, an infinity or NaN. Every
  arithmetic operation of the source is the exact operation followed by rounding to the
  nearest binary64 value, ties to the even significand, with overflow to infinity. The
  sign of zero is not modelled (the source never divides by a computed value).
  Every browser or library operation the module calls (dynamic import, model download,
  inference, image decoding, canvas access, drawing, encoding) is an outcome supplied by a
  \<open>platform\<close> record, so each failure the source can observe is a value of the model.
  Each awaited operation is taken to settle; console output is not modelled.
\<close>

subsection \<open>Binary64 rounding\<close>

text \<open>Rounding a real to the nearest integer, a tie to the even one.\<close>

definition round_half_even :: "real \<Rightarrow> int" where
  "round_half_even q =
     (let n = \<lfloor>q\<rfloor>; d = q - of_int n
      in if d < 1 / 2 then n else if 1 / 2 < d then n + 1 else if even n then n else n + 1)"

text \<open>The largest power of two not above a positive \<open>x\<close>, found by halving or doubling.\<close>

function binade :: "real \<Rightarrow> real" where
  "binade x = (if 2 \<le> x then 2 * binade (x / 2)
               else if 0 < x \<and> x < 1 then binade (2 * x) / 2
               else 1)"
  by pat_completeness auto

termination
proof (relation "measure (\<lambda>x. nat \<lceil>x\<rceil> + 2 * nat \<lceil>1 / x\<rceil>)")
  show "wf (measure (\<lambda>x::real. nat \<lceil>x\<rceil> + 2 * nat \<lceil>1 / x\<rceil>))" by simp
next
  fix x :: real
  assume x: "2 \<le> x"
  have a: "\<lceil>1 / x\<rceil> = 1"
    using x by (intro ceiling_unique) (simp_all add: field_simps)
  have b: "\<lceil>1 / (x / 2)\<rceil> = 1"
    using x by (intro ceiling_unique) (simp_all add: field_simps)
  have "\<lceil>x / 2\<rceil> \<le> \<lceil>x - 1\<rceil>"
    using x by (intro ceiling_mono) simp
  then have c: "\<lceil>x / 2\<rceil> < \<lceil>x\<rceil>" by simp
  have d: "0 < \<lceil>x\<rceil>" using x by (simp add: ceiling_less_iff less_ceiling_iff)
  from a b c d show "(x / 2, x) \<in> measure (\<lambda>x. nat \<lceil>x\<rceil> + 2 * nat \<lceil>1 / x\<rceil>)"
    by simp
next
  fix x :: real
  assume "\<not> 2 \<le> x" and x: "0 < x \<and> x < 1"
  have cx: "\<lceil>x\<rceil> = 1" using x by (intro ceiling_unique) simp_all
  show "(2 * x, x) \<in> measure (\<lambda>x. nat \<lceil>x\<rceil> + 2 * nat \<lceil>1 / x\<rceil>)"
  proof (cases "x < 1 / 2")
    case True
    have c2: "\<lceil>2 * x\<rceil> = 1" using x True by (intro ceiling_unique) simp_all
    have "1 / (2 * x) \<le> 1 / x - 1" using x True by (simp add: field_simps)
    then have "\<lceil>1 / (2 * x)\<rceil> \<le> \<lceil>1 / x - 1\<rceil>" by (rule ceiling_mono)
    then have l: "\<lceil>1 / (2 * x)\<rceil> < \<lceil>1 / x\<rceil>" by simp
    have "0 < \<lceil>1 / x\<rceil>" using x by (simp add: less_ceiling_iff)
    with l cx c2 show ?thesis by simp
  next
    case False
    have "\<lceil>2 * x\<rceil> \<le> 2" using x by (simp add: ceiling_le_iff)
    then have c2: "nat \<lceil>2 * x\<rceil> \<le> 2" by linarith
    have t: "\<lceil>1 / x\<rceil> = 2" using x False by (intro ceiling_unique) (simp_all add: field_simps)
    have h: "\<lceil>1 / (2 * x)\<rceil> = 1" using x False by (intro ceiling_unique) (simp_all add: field_simps)
    have "nat \<lceil>2 * x\<rceil> + 2 * nat \<lceil>1 / (2 * x)\<rceil> < nat \<lceil>x\<rceil> + 2 * nat \<lceil>1 / x\<rceil>"
      unfolding t h cx using c2 by linarith
    then show ?thesis by simp
  qed
qed

declare binade.simps [simp del]

text \<open>
  The unit in the last place of \<open>x\<close>: 52 binary places below its binade, and never below
  the smallest subnormal step.
\<close>

definition ulp :: "real \<Rightarrow> real" where
  "ulp x = max (binade \<bar>x\<bar> / 2 ^ 52) (1 / 2 ^ 1074)"

text \<open>The exponent of that unit, as used in the proofs.\<close>

definition ulp_exp :: "real \<Rightarrow> int" where
  "ulp_exp x = max (\<lfloor>log 2 \<bar>x\<bar>\<rfloor> - 52) (- 1074)"

text \<open>Rounding to the nearest multiple of the unit, before the range check.\<close>

definition round_double :: "real \<Rightarrow> real" where
  "round_double x = of_int (round_half_even (x / ulp x)) * ulp x"

definition double_limit :: real where
  "double_limit = 2 ^ 1024"

text \<open>The finite binary64 values.\<close>

definition is_double :: "real \<Rightarrow> bool" where
  "is_double x \<longleftrightarrow> round_double x = x \<and> \<bar>x\<bar> < double_limit"

subsection \<open>JavaScript numbers\<close>

datatype js_number = Num real | PosInf | NegInf | NaN

text \<open>The binary64 result of an exact real result.\<close>

definition to_number :: "real \<Rightarrow> js_number" where
  "to_number x =
     (let r = round_double x
      in if double_limit \<le> r then PosInf else if r \<le> - double_limit then NegInf else Num r)"

text \<open>A decimal literal of the source, and an integer attribute of the browser.\<close>

definition js_literal :: "real \<Rightarrow> js_number" where
  "js_literal x = to_number x"

definition js_of_nat :: "nat \<Rightarrow> js_number" where
  "js_of_nat n = to_number (real n)"

fun js_neg :: "js_number \<Rightarrow> js_number" where
  "js_neg (Num a) = Num (- a)"
| "js_neg PosInf = NegInf"
| "js_neg NegInf = PosInf"
| "js_neg NaN = NaN"

text \<open>\<open>a + b\<close>\<close>

fun js_add :: "js_number \<Rightarrow> js_number \<Rightarrow> js_number" where
  "js_add (Num a) (Num b) = to_number (a + b)"
| "js_add (Num a) PosInf = PosInf"
| "js_add (Num a) NegInf = NegInf"
| "js_add PosInf (Num b) = PosInf"
| "js_add NegInf (Num b) = NegInf"
| "js_add PosInf PosInf = PosInf"
| "js_add NegInf NegInf = NegInf"
| "js_add PosInf NegInf = NaN"
| "js_add NegInf PosInf = NaN"
| "js_add NaN b = NaN"
| "js_add a NaN = NaN"

text \<open>\<open>a - b\<close>\<close>

definition js_sub :: "js_number \<Rightarrow> js_number \<Rightarrow> js_number" where
  "js_sub a b = js_add a (js_neg b)"

text \<open>\<open>a * b\<close>\<close>

fun js_mul :: "js_number \<Rightarrow> js_number \<Rightarrow> js_number" where
  "js_mul (Num a) (Num b) = to_number (a * b)"
| "js_mul (Num a) PosInf = (if a = 0 then NaN else if 0 < a then PosInf else NegInf)"
| "js_mul (Num a) NegInf = (if a = 0 then NaN else if 0 < a then NegInf else PosInf)"
| "js_mul PosInf (Num b) = (if b = 0 then NaN else if 0 < b then PosInf else NegInf)"
| "js_mul NegInf (Num b) = (if b = 0 then NaN else if 0 < b then NegInf else PosInf)"
| "js_mul PosInf PosInf = PosInf"
| "js_mul NegInf NegInf = PosInf"
| "js_mul PosInf NegInf = NegInf"
| "js_mul NegInf PosInf = NegInf"
| "js_mul NaN b = NaN"
| "js_mul a NaN = NaN"

text \<open>\<open>a / 2\<close>, the only division of the source.\<close>

fun js_half :: "js_number \<Rightarrow> js_number" where
  "js_half (Num a) = to_number (a / 2)"
| "js_half PosInf = PosInf"
| "js_half NegInf = NegInf"
| "js_half NaN = NaN"

text \<open>\<open>a <= b\<close>: false as soon as one side is NaN.\<close>

fun js_le :: "js_number \<Rightarrow> js_number \<Rightarrow> bool" where
  "js_le NaN b = False"
| "js_le a NaN = False"
| "js_le (Num a) (Num b) = (a \<le> b)"
| "js_le NegInf b = True"
| "js_le a PosInf = True"
| "js_le a b = False"

text \<open>\<open>Math.max(a, b)\<close> and \<open>Math.min(a, b)\<close>: NaN as soon as one argument is NaN.\<close>

fun js_max :: "js_number \<Rightarrow> js_number \<Rightarrow> js_number" where
  "js_max NaN b = NaN"
| "js_max a NaN = NaN"
| "js_max a b = (if js_le a b then b else a)"

fun js_min :: "js_number \<Rightarrow> js_number \<Rightarrow> js_number" where
  "js_min NaN b = NaN"
| "js_min a NaN = NaN"
| "js_min a b = (if js_le a b then a else b)"

subsection \<open>Data\<close>

text \<open>\<open>detection.box\<close>: the four fields the source reads.\<close>

record bounding_box =
  box_x :: js_number
  box_y :: js_number
  box_width :: js_number
  box_height :: js_number

text \<open>\<open>faceapi.FaceDetection\<close>, as far as the module uses it.\<close>

record face_detection =
  box :: bounding_box
  score :: js_number

text \<open>
  A loaded \<open>HTMLImageElement\<close>: its source and its pixel dimensions, which the browser
  reports as unsigned integers.
\<close>

record html_image =
  img_src :: string
  img_width :: nat
  img_height :: nat

text \<open>The four numbers \<open>cropX, cropY, cropWidth, cropHeight\<close> of \<open>cropImageToFace\<close>.\<close>

record crop_rectangle =
  cropX :: js_number
  cropY :: js_number
  cropWidth :: js_number
  cropHeight :: js_number

text \<open>\<open>PixelDimensions\<close> of the specification.\<close>

record pixel_dimensions =
  dim_width :: nat
  dim_height :: nat

subsection \<open>Crop geometry\<close>

text \<open>
  Lines 79 to 95 of \<open>cropImageToFace\<close>, with the local constants of the source as
  \<open>let\<close> bindings in the same order.
\<close>

definition cropImageToFace_geometry :: "face_detection \<Rightarrow> html_image \<Rightarrow> js_number \<Rightarrow> crop_rectangle" where
  "cropImageToFace_geometry detection img padding =
     (let b = box detection;
          faceWidth = box_width b;
          faceHeight = box_height b;
          faceCenterX = js_add (box_x b) (js_half faceWidth);
          faceCenterY = js_add (box_y b) (js_half faceHeight);
          maxDimension = js_max faceWidth faceHeight;
          cropSize = js_mul maxDimension padding;
          cX = js_max (Num 0) (js_sub faceCenterX (js_half cropSize));
          cY = js_max (Num 0) (js_sub faceCenterY (js_half cropSize));
          cW = js_min cropSize (js_sub (js_of_nat (img_width img)) cX);
          cH = js_min cropSize (js_sub (js_of_nat (img_height img)) cY)
      in \<lparr>cropX = cX, cropY = cY, cropWidth = cW, cropHeight = cH\<rparr>)"

text \<open>
  The reference definition \<open>computeCrop\<close>, written from the four steps of section 4.2 of
  the specification and not from the source, over the same numbers.
\<close>

definition spec_faceCenterX :: "bounding_box \<Rightarrow> js_number" where
  "spec_faceCenterX b = js_add (box_x b) (js_half (box_width b))"

definition spec_faceCenterY :: "bounding_box \<Rightarrow> js_number" where
  "spec_faceCenterY b = js_add (box_y b) (js_half (box_height b))"

definition spec_cropSize :: "bounding_box \<Rightarrow> js_number \<Rightarrow> js_number" where
  "spec_cropSize b padding = js_mul (js_max (box_width b) (box_height b)) padding"

definition computeCrop_spec :: "bounding_box \<Rightarrow> pixel_dimensions \<Rightarrow> js_number \<Rightarrow> crop_rectangle" where
  "computeCrop_spec b imageDims padding =
     \<lparr>cropX = js_max (Num 0) (js_sub (spec_faceCenterX b) (js_half (spec_cropSize b padding))),
      cropY = js_max (Num 0) (js_sub (spec_faceCenterY b) (js_half (spec_cropSize b padding))),
      cropWidth = js_min (spec_cropSize b padding)
         (js_sub (js_of_nat (dim_width imageDims))
            (js_max (Num 0) (js_sub (spec_faceCenterX b) (js_half (spec_cropSize b padding))))),
      cropHeight = js_min (spec_cropSize b padding)
         (js_sub (js_of_nat (dim_height imageDims))
            (js_max (Num 0) (js_sub (spec_faceCenterY b) (js_half (spec_cropSize b padding)))))\<rparr>"

definition dims_of :: "html_image \<Rightarrow> pixel_dimensions" where
  "dims_of img = \<lparr>dim_width = img_width img, dim_height = img_height img\<rparr>"

subsection \<open>Errors, promises and the platform\<close>

text \<open>A JavaScript \<open>Error\<close> with its message.\<close>

datatype js_error = Error string

text \<open>
  What a caller observes of a promise: resolved with a value, rejected with an error, or
  never settled. A promise never settles when the callback that should settle it throws
  before it calls \<open>resolve\<close> or \<open>reject\<close>.
\<close>

datatype 'a promise = Resolved 'a | Rejected js_error | Pending

text \<open>\<open>TinyFaceDetectorOptions\<close>; the threshold 0.5 is a binary64 value.\<close>

record tiny_options =
  inputSize :: nat
  scoreThreshold :: real

text \<open>The nine arguments of \<open>ctx.drawImage\<close>, and a canvas with what was drawn on it.\<close>

record draw_call =
  draw_source :: html_image
  sx :: js_number
  sy :: js_number
  sWidth :: js_number
  sHeight :: js_number
  dx :: js_number
  dy :: js_number
  dWidth :: js_number
  dHeight :: js_number

record canvas =
  canvas_width :: js_number
  canvas_height :: js_number
  drawn :: "draw_call list"

text \<open>
  What the browser and face-api.js answer during one call. \<open>Inl\<close> is a thrown error or a
  rejected promise; \<open>None\<close> from an image load is the \<open>onerror\<close> event, \<open>Some\<close> the
  \<open>onload\<close> event; \<open>detectSingleFace\<close> answers \<open>undefined\<close> (\<open>None\<close>) or a detection;
  \<open>getContext2d\<close> is false when \<open>canvas.getContext('2d')\<close> is null; \<open>drawImage\<close>
  answers the exception it throws, or \<open>None\<close> when it returns; \<open>toDataURL\<close> throws or
  returns a string.
\<close>

record platform =
  import_faceapi :: "js_error + unit"
  loadFromUri :: "string \<Rightarrow> js_error + unit"
  detectSingleFace :: "html_image \<Rightarrow> tiny_options \<Rightarrow> js_error + face_detection option"
  image_onload :: "string \<Rightarrow> html_image option"
  crop_image_onload :: "string \<Rightarrow> html_image option"
  getContext2d :: bool
  drawImage :: "draw_call \<Rightarrow> js_error option"
  toDataURL :: "canvas \<Rightarrow> string \<Rightarrow> js_number \<Rightarrow> js_error + string"

text \<open>
  The two module variables \<open>faceapi\<close> (true once the import has been assigned) and
  \<open>modelsLoaded\<close>, with two counters that record how often the import and
  \<open>loadFromUri\<close> were started.
\<close>

record gateway =
  faceapi :: bool
  modelsLoaded :: bool
  import_calls :: nat
  fetch_calls :: nat

definition initial_gateway :: gateway where
  "initial_gateway = \<lparr>faceapi = False, modelsLoaded = False, import_calls = 0, fetch_calls = 0\<rparr>"

text \<open>The value \<open>processImageWithFaceDetection\<close> resolves with.\<close>

record processing_outcome =
  processedImage :: string
  faceDetected :: bool
  detection :: "face_detection option"

subsection \<open>loadModels\<close>

definition MODEL_URL :: string where
  "MODEL_URL = ''https://cdn.jsdelivr.net/npm/@vladmandic/face-api/model''"

text \<open>Lines 22 to 29: the download, then the flag. A failure leaves the flag as it was.\<close>

definition loadModels_fetch :: "platform \<Rightarrow> gateway \<Rightarrow> unit promise \<times> gateway" where
  "loadModels_fetch w g =
     (case loadFromUri w MODEL_URL of
        Inl e \<Rightarrow> (Rejected e, g\<lparr>fetch_calls := fetch_calls g + 1\<rparr>)
      | Inr _ \<Rightarrow> (Resolved (), g\<lparr>fetch_calls := fetch_calls g + 1, modelsLoaded := True\<rparr>))"

text \<open>
  \<open>loadModels\<close>: return at once when the flag is set; import the library when the variable
  is still unset; download; the \<open>catch\<close> block rethrows the error it caught.
\<close>

definition loadModels :: "platform \<Rightarrow> gateway \<Rightarrow> unit promise \<times> gateway" where
  "loadModels w g =
     (if modelsLoaded g then (Resolved (), g)
      else if \<not> faceapi g then
        (case import_faceapi w of
           Inl e \<Rightarrow> (Rejected e, g\<lparr>import_calls := import_calls g + 1\<rparr>)
         | Inr _ \<Rightarrow> loadModels_fetch w (g\<lparr>import_calls := import_calls g + 1, faceapi := True\<rparr>))
      else loadModels_fetch w g)"

text \<open>Calls made one after the other, each awaited before the next starts.\<close>

fun loadModels_sequence :: "platform list \<Rightarrow> gateway \<Rightarrow> gateway" where
  "loadModels_sequence [] g = g"
| "loadModels_sequence (w # ws) g = loadModels_sequence ws (snd (loadModels w g))"

subsection \<open>detectFace\<close>

text \<open>
  The whole body is inside \<open>try\<close>: a rejected \<open>loadModels\<close>, a call through an unset
  \<open>faceapi\<close> and a failing inference all end in \<open>return null\<close>. \<open>detection || null\<close> maps
  \<open>undefined\<close> to \<open>null\<close>. Awaiting a promise that never settles never returns.
\<close>

definition detectFace ::
  "platform \<Rightarrow> gateway \<Rightarrow> html_image \<Rightarrow> face_detection option promise \<times> gateway" where
  "detectFace w g imageElement =
     (case loadModels w g of
        (Rejected e, g1) \<Rightarrow> (Resolved None, g1)
      | (Pending, g1) \<Rightarrow> (Pending, g1)
      | (Resolved _, g1) \<Rightarrow>
          (if \<not> faceapi g1 then (Resolved None, g1)
           else case detectSingleFace w imageElement \<lparr>inputSize = 416, scoreThreshold = 0.5\<rparr> of
                  Inl e \<Rightarrow> (Resolved None, g1)
                | Inr found \<Rightarrow> (Resolved found, g1)))"

subsection \<open>cropImageToFace\<close>

text \<open>The default value of the parameter \<open>padding\<close>: the literal 1.8.\<close>

definition default_padding :: js_number where
  "default_padding = js_literal 1.8"

text \<open>Lines 111 to 115: the one call of \<open>drawImage\<close>.\<close>

definition crop_draw :: "html_image \<Rightarrow> crop_rectangle \<Rightarrow> draw_call" where
  "crop_draw img r =
     \<lparr>draw_source = img, sx = cropX r, sy = cropY r,
      sWidth = cropWidth r, sHeight = cropHeight r,
      dx = Num 0, dy = Num 0, dWidth = cropWidth r, dHeight = cropHeight r\<rparr>"

text \<open>
  Lines 107 to 115: the canvas takes the size of the crop and receives that draw call.
  \<open>canvas.width\<close> and \<open>canvas.height\<close> hold the numbers the source assigns; the browser's
  conversion to an integer is not modelled.
\<close>

definition crop_canvas :: "html_image \<Rightarrow> crop_rectangle \<Rightarrow> canvas" where
  "crop_canvas img r =
     \<lparr>canvas_width = cropWidth r, canvas_height = cropHeight r, drawn = [crop_draw img r]\<rparr>"

text \<open>
  The promise of \<open>cropImageToFace\<close> rejects in two places: \<open>img.onerror\<close> and a null
  context. When \<open>drawImage\<close> or \<open>toDataURL\<close> throws, the exception leaves the
  \<open>onload\<close> handler before \<open>resolve\<close> is reached and nothing calls \<open>reject\<close>: the promise
  never settles.
\<close>

definition cropImageToFace :: "platform \<Rightarrow> string \<Rightarrow> face_detection \<Rightarrow> js_number \<Rightarrow> string promise" where
  "cropImageToFace w imageDataUrl found padding =
     (case crop_image_onload w imageDataUrl of
        None \<Rightarrow> Rejected (Error ''Failed to load image for cropping'')
      | Some img \<Rightarrow>
          (if \<not> getContext2d w then Rejected (Error ''Could not get canvas context'')
           else case drawImage w (crop_draw img (cropImageToFace_geometry found img padding)) of
                  Some e \<Rightarrow> Pending
                | None \<Rightarrow>
                    (case toDataURL w
                            (crop_canvas img (cropImageToFace_geometry found img padding))
                            ''image/jpeg'' (js_literal 0.95) of
                       Inl e \<Rightarrow> Pending
                     | Inr croppedDataUrl \<Rightarrow> Resolved croppedDataUrl)))"

subsection \<open>processImageWithFaceDetection\<close>

definition original_outcome :: "string \<Rightarrow> processing_outcome" where
  "original_outcome imageDataUrl =
     \<lparr>processedImage = imageDataUrl, faceDetected = False, detection = None\<rparr>"

text \<open>
  \<open>img.onerror\<close> rejects. \<open>img.onload\<close> runs the detection and the crop inside
  \<open>try\<close>; its \<open>catch\<close> resolves with the original picture. While an awaited promise
  does not settle, neither does this one.
\<close>

definition processImageWithFaceDetection ::
  "platform \<Rightarrow> gateway \<Rightarrow> string \<Rightarrow> processing_outcome promise \<times> gateway" where
  "processImageWithFaceDetection w g imageDataUrl =
     (case image_onload w imageDataUrl of
        None \<Rightarrow> (Rejected (Error ''Failed to load image''), g)
      | Some img \<Rightarrow>
          (case detectFace w g img of
             (Rejected e, g1) \<Rightarrow> (Resolved (original_outcome imageDataUrl), g1)
           | (Pending, g1) \<Rightarrow> (Pending, g1)
           | (Resolved None, g1) \<Rightarrow> (Resolved (original_outcome imageDataUrl), g1)
           | (Resolved (Some found), g1) \<Rightarrow>
               (case cropImageToFace w imageDataUrl found default_padding of
                  Resolved croppedImage \<Rightarrow>
                    (Resolved \<lparr>processedImage = croppedImage, faceDetected = True,
                               detection = Some found\<rparr>, g1)
                | Rejected e \<Rightarrow> (Resolved (original_outcome imageDataUrl), g1)
                | Pending \<Rightarrow> (Pending, g1))))"

subsection \<open>Overlapping loadModels calls\<close>

text \<open>
  JavaScript runs one task at a time and switches only at an \<open>await\<close>. A call of
  \<open>loadModels\<close> is therefore in one of four places: not started, waiting for the import
  (line 19), waiting for the download (line 26), or settled. An event starts a call or
  settles what a call waits for, and \<open>loop_step\<close> runs the call up to its next \<open>await\<close>.
  An event for a call that is not waiting for it changes nothing.
\<close>

datatype task = NotStarted | AwaitImport | AwaitFetch | Done "unit promise"

datatype event =
  Call nat
  | ImportSettled nat "js_error + unit"
  | FetchSettled nat "js_error + unit"

record event_loop =
  gate :: gateway
  tasks :: "nat \<Rightarrow> task"

fun loop_step :: "event \<Rightarrow> event_loop \<Rightarrow> event_loop" where
  "loop_step (Call i) s =
     (if tasks s i \<noteq> NotStarted then s
      else if modelsLoaded (gate s) then s\<lparr>tasks := (tasks s)(i := Done (Resolved ()))\<rparr>
      else if \<not> faceapi (gate s) then
        s\<lparr>gate := (gate s)\<lparr>import_calls := import_calls (gate s) + 1\<rparr>,
          tasks := (tasks s)(i := AwaitImport)\<rparr>
      else
        s\<lparr>gate := (gate s)\<lparr>fetch_calls := fetch_calls (gate s) + 1\<rparr>,
          tasks := (tasks s)(i := AwaitFetch)\<rparr>)"
| "loop_step (ImportSettled i r) s =
     (if tasks s i \<noteq> AwaitImport then s
      else case r of
        Inl e \<Rightarrow> s\<lparr>tasks := (tasks s)(i := Done (Rejected e))\<rparr>
      | Inr _ \<Rightarrow>
          s\<lparr>gate := (gate s)\<lparr>faceapi := True, fetch_calls := fetch_calls (gate s) + 1\<rparr>,
            tasks := (tasks s)(i := AwaitFetch)\<rparr>)"
| "loop_step (FetchSettled i r) s =
     (if tasks s i \<noteq> AwaitFetch then s
      else case r of
        Inl e \<Rightarrow> s\<lparr>tasks := (tasks s)(i := Done (Rejected e))\<rparr>
      | Inr _ \<Rightarrow>
          s\<lparr>gate := (gate s)\<lparr>modelsLoaded := True\<rparr>,
            tasks := (tasks s)(i := Done (Resolved ()))\<rparr>)"

fun loop_run :: "event list \<Rightarrow> event_loop \<Rightarrow> event_loop" where
  "loop_run [] s = s"
| "loop_run (ev # evs) s = loop_run evs (loop_step ev s)"

definition initial_loop :: event_loop where
  "initial_loop = \<lparr>gate = initial_gateway, tasks = (\<lambda>_. NotStarted)\<rparr>"

subsection \<open>Concrete platforms and inputs\<close>

definition sample_face :: face_detection where
  "sample_face =
     \<lparr>box = \<lparr>box_x = Num 400, box_y = Num 300, box_width = Num 120, box_height = Num 160\<rparr>,
      score = js_literal 0.9\<rparr>"

definition sample_image :: html_image where
  "sample_image = \<lparr>img_src = ''data:image/png;base64,AAAA'', img_width = 1000, img_height = 800\<rparr>"

text \<open>
  A face close to the right edge, written with the literals 872.04 and 91.4; a wide face;
  and a face one step of the number grid wide that touches the right edge.
\<close>

definition near_edge_face :: face_detection where
  "near_edge_face =
     \<lparr>box = \<lparr>box_x = js_literal 872.04, box_y = Num 300,
              box_width = js_literal 91.4, box_height = js_literal 91.4\<rparr>, score = Num 1\<rparr>"



text \<open>A platform on which every operation succeeds and the detector finds \<open>sample_face\<close>.\<close>

definition good_platform :: platform where
  "good_platform =
     \<lparr>import_faceapi = Inr (),
      loadFromUri = (\<lambda>_. Inr ()),
      detectSingleFace = (\<lambda>_ _. Inr (Some sample_face)),
      image_onload = (\<lambda>_. Some sample_image),
      crop_image_onload = (\<lambda>_. Some sample_image),
      getContext2d = True,
      drawImage = (\<lambda>_. None),
      toDataURL = (\<lambda>_ mime _. Inr (''data:'' @ mime @ '';base64,BBBB''))\<rparr>"

definition network_error :: js_error where
  "network_error = Error ''Failed to fetch''"

text \<open>The same platform with one operation failing.\<close>

definition offline_platform :: platform where
  "offline_platform = good_platform\<lparr>loadFromUri := (\<lambda>_. Inl network_error)\<rparr>"

definition import_failing_platform :: platform where
  "import_failing_platform = good_platform\<lparr>import_faceapi := Inl network_error\<rparr>"

definition faceless_platform :: platform where
  "faceless_platform = good_platform\<lparr>detectSingleFace := (\<lambda>_ _. Inr None)\<rparr>"

definition undecodable_platform :: platform where
  "undecodable_platform = good_platform\<lparr>image_onload := (\<lambda>_. None)\<rparr>"

definition no_context_platform :: platform where
  "no_context_platform = good_platform\<lparr>getContext2d := False\<rparr>"

definition inference_error :: js_error where
  "inference_error = Error ''inference failed''"

definition inference_failing_platform :: platform where
  "inference_failing_platform = good_platform\<lparr>detectSingleFace := (\<lambda>_ _. Inl inference_error)\<rparr>"

definition crop_reload_failing_platform :: platform where
  "crop_reload_failing_platform = good_platform\<lparr>crop_image_onload := (\<lambda>_. None)\<rparr>"

definition encode_failing_platform :: platform where
  "encode_failing_platform =
     good_platform\<lparr>toDataURL := (\<lambda>_ _ _. Inl (Error ''SecurityError''))\<rparr>"

text \<open>An uploaded PNG picture as a data URL.\<close>

definition sample_url :: string where
  "sample_url = ''data:image/png;base64,AAAA''"

section \<open>Properties of binary64 rounding\<close>

text \<open>The equations that evaluate a rounding on a numeral.\<close>

lemmas fp_eval = to_number_def double_limit_def round_double_def ulp_def round_half_even_def binade.simps Let_def

text \<open>Rounding to an integer: exact on integers, within one half, monotone, odd.\<close>

lemma rhe_cases: "round_half_even q = \<lfloor>q\<rfloor> \<or> round_half_even q = \<lfloor>q\<rfloor> + 1"
  by (simp add: round_half_even_def Let_def)

lemma rhe_of_int: "round_half_even (of_int n) = n"
  by (simp add: round_half_even_def)

lemma rhe_error: "\<bar>of_int (round_half_even q) - q\<bar> \<le> 1 / 2"
proof -
  have "of_int \<lfloor>q\<rfloor> \<le> q" "q < of_int \<lfloor>q\<rfloor> + 1" by linarith+
  then show ?thesis
    by (auto simp: round_half_even_def Let_def)
qed

lemma rhe_mono:
  assumes "q \<le> q'"
  shows "round_half_even q \<le> round_half_even q'"
proof -
  have f: "\<lfloor>q\<rfloor> \<le> \<lfloor>q'\<rfloor>" using assms by (rule floor_mono)
  show ?thesis
  proof (cases "\<lfloor>q\<rfloor> = \<lfloor>q'\<rfloor>")
    case True
    with assms show ?thesis
      by (auto simp: round_half_even_def Let_def)
  next
    case False
    with f have "\<lfloor>q\<rfloor> + 1 \<le> \<lfloor>q'\<rfloor>" by simp
    moreover have "round_half_even q \<le> \<lfloor>q\<rfloor> + 1" using rhe_cases [of q] by auto
    moreover have "\<lfloor>q'\<rfloor> \<le> round_half_even q'" using rhe_cases [of q'] by auto
    ultimately show ?thesis by linarith
  qed
qed

lemma rhe_minus: "round_half_even (- q) = - round_half_even q"
proof (cases "q = of_int \<lfloor>q\<rfloor>")
  case True
  then obtain n :: int where "q = of_int n" ..
  then have "- q = of_int (- n)" by simp
  with \<open>q = of_int n\<close> show ?thesis by (simp only: rhe_of_int)
next
  case False
  then have fl: "\<lfloor>- q\<rfloor> = - \<lfloor>q\<rfloor> - 1"
    by (intro floor_unique; linarith)
  have b: "of_int \<lfloor>q\<rfloor> < q" "q < of_int \<lfloor>q\<rfloor> + 1" using False by linarith+
  show ?thesis
    unfolding round_half_even_def Let_def fl using b
    by (auto simp: algebra_simps)
qed

lemma rhe_ge: "of_int n \<le> q \<Longrightarrow> n \<le> round_half_even q"
  using rhe_mono [of "of_int n" q] by (simp add: rhe_of_int)

lemma rhe_le: "q \<le> of_int n \<Longrightarrow> round_half_even q \<le> n"
  using rhe_mono [of q "of_int n"] by (simp add: rhe_of_int)

text \<open>The binade is the power of two with the exponent \<open>\<lfloor>log 2 x\<rfloor>\<close>.\<close>

lemma binade_pos: "0 < binade x"
proof (induction x rule: binade.induct)
  case (1 x)
  then show ?case by (subst binade.simps) auto
qed

lemma binade_powr:
  "0 < x \<Longrightarrow> binade x = 2 powr (of_int \<lfloor>log 2 x\<rfloor>)"
proof (induction x rule: binade.induct)
  case (1 x)
  show ?case
  proof (cases "2 \<le> x")
    case True
    then have "binade (x / 2) = 2 powr (of_int \<lfloor>log 2 (x / 2)\<rfloor>)"
      using "1.IH"(1) by simp
    moreover have "log 2 (x / 2) = log 2 x - 1"
      using True by (simp add: log_divide)
    ultimately have "binade (x / 2) = 2 powr (of_int \<lfloor>log 2 x\<rfloor> - 1)"
      by simp
    then have "2 * binade (x / 2) = 2 powr (of_int \<lfloor>log 2 x\<rfloor>)"
      by (simp add: powr_diff)
    with True show ?thesis by (subst binade.simps) simp
  next
    case False
    show ?thesis
    proof (cases "x < 1")
      case True
      with "1.prems" False have "binade (2 * x) = 2 powr (of_int \<lfloor>log 2 (2 * x)\<rfloor>)"
        using "1.IH"(2) by simp
      moreover have "log 2 (2 * x) = log 2 x + 1"
        using "1.prems" by (simp add: log_mult)
      ultimately have "binade (2 * x) = 2 powr (of_int \<lfloor>log 2 x\<rfloor> + 1)"
        by simp
      then have "binade (2 * x) / 2 = 2 powr (of_int \<lfloor>log 2 x\<rfloor>)"
        by (simp add: powr_add)
      with True False "1.prems" show ?thesis by (subst binade.simps) simp
    next
      case ge: False
      with False have "0 \<le> log 2 x" "log 2 x < 1" by simp_all
      then have "\<lfloor>log 2 x\<rfloor> = 0" by (intro floor_unique) simp_all
      with False ge show ?thesis by (subst binade.simps) simp
    qed
  qed
qed

lemma binade_bounds:
  assumes "0 < x"
  shows "binade x \<le> x" and "x < 2 * binade x"
proof -
  have "2 powr (of_int \<lfloor>log 2 x\<rfloor>) \<le> 2 powr (log 2 x)"
    by (intro powr_mono) simp_all
  then show "binade x \<le> x" using assms by (simp add: binade_powr)
  have "2 powr (log 2 x) < 2 powr (of_int \<lfloor>log 2 x\<rfloor> + 1)"
    by (intro powr_less_mono; linarith)
  then show "x < 2 * binade x" using assms by (simp add: binade_powr powr_add)
qed

text \<open>The unit in the last place is a power of two, and grows with the magnitude.\<close>

lemma two_powr_int_numeral:
  "(2::real) ^ 52 = 2 powr 52" "1 / (2::real) ^ 1074 = 2 powr (- 1074)"
  "(2::real) ^ 53 = 2 powr 53"
  by (simp_all add: powr_minus divide_simps)

lemma ulp_pos: "0 < ulp x"
  by (simp add: ulp_def binade_pos less_max_iff_disj)

lemma ulp_minus: "ulp (- x) = ulp x"
  by (simp add: ulp_def)

lemma ulp_powr:
  assumes "x \<noteq> 0"
  shows "ulp x = 2 powr (of_int (ulp_exp x))"
proof -
  have "binade \<bar>x\<bar> / 2 ^ 52 = 2 powr (of_int (\<lfloor>log 2 \<bar>x\<bar>\<rfloor> - 52))"
    using assms by (simp add: binade_powr powr_diff two_powr_int_numeral(1))
  moreover have "max (2 powr a) (2 powr b) = 2 powr (max a b)" for a b :: real
    by (simp add: max_def)
  ultimately show ?thesis
    unfolding ulp_def ulp_exp_def two_powr_int_numeral(2) by (simp add: max_def)
qed

lemma ulp_exp_ge: "- 1074 \<le> ulp_exp x"
  by (simp add: ulp_exp_def)

lemma ulp_above: "\<bar>x\<bar> < 2 ^ 53 * ulp x"
proof (cases "x = 0")
  case True
  then show ?thesis using ulp_pos [of x] by simp
next
  case False
  then have "\<bar>x\<bar> < 2 * binade \<bar>x\<bar>" by (intro binade_bounds) simp
  also have "\<dots> = 2 ^ 53 * (binade \<bar>x\<bar> / 2 ^ 52)" by simp
  also have "\<dots> \<le> 2 ^ 53 * ulp x" by (intro mult_left_mono) (simp_all add: ulp_def)
  finally show ?thesis .
qed

lemma ulp_exp_mono:
  assumes "x \<noteq> 0" and "\<bar>x\<bar> \<le> \<bar>y\<bar>"
  shows "ulp_exp x \<le> ulp_exp y"
proof -
  have "log 2 \<bar>x\<bar> \<le> log 2 \<bar>y\<bar>" using assms by simp
  then have "\<lfloor>log 2 \<bar>x\<bar>\<rfloor> \<le> \<lfloor>log 2 \<bar>y\<bar>\<rfloor>" by (rule floor_mono)
  then show ?thesis by (simp add: ulp_exp_def)
qed

lemma ulp_mono:
  assumes "x \<noteq> 0" and "\<bar>x\<bar> \<le> \<bar>y\<bar>"
  shows "ulp x \<le> ulp y"
proof -
  from assms have "y \<noteq> 0" by auto
  with assms ulp_exp_mono [OF assms] show ?thesis by (simp add: ulp_powr)
qed

lemma ulp_gap:
  assumes "x \<noteq> 0" and "y \<noteq> 0" and "ulp x < ulp y"
  shows "2 * ulp x \<le> ulp y" and "2 ^ 52 * ulp y \<le> \<bar>y\<bar>"
proof -
  from assms have lt: "ulp_exp x < ulp_exp y" by (simp add: ulp_powr)
  then have "of_int (ulp_exp x) + 1 \<le> (of_int (ulp_exp y) :: real)" by linarith
  then have "2 powr (of_int (ulp_exp x) + 1) \<le> (2::real) powr (of_int (ulp_exp y))"
    by (intro powr_mono) simp_all
  then show "2 * ulp x \<le> ulp y" using assms by (simp add: ulp_powr powr_add)
  from lt ulp_exp_ge [of x] have "ulp_exp y = \<lfloor>log 2 \<bar>y\<bar>\<rfloor> - 52"
    by (simp add: ulp_exp_def max_def split: if_splits)
  then have "ulp y = 2 powr (of_int \<lfloor>log 2 \<bar>y\<bar>\<rfloor> - 52)"
    using assms(2) by (simp add: ulp_powr)
  then have "2 ^ 52 * ulp y = binade \<bar>y\<bar>"
    using assms(2) by (simp add: binade_powr powr_diff two_powr_int_numeral(1))
  then show "2 ^ 52 * ulp y \<le> \<bar>y\<bar>" using binade_bounds(1) [of "\<bar>y\<bar>"] assms(2) by simp
qed

lemma ulp_le:
  assumes "x \<noteq> 0"
  shows "ulp x \<le> max (\<bar>x\<bar> / 2 ^ 52) (1 / 2 ^ 1074)"
proof -
  have "binade \<bar>x\<bar> / 2 ^ 52 \<le> \<bar>x\<bar> / 2 ^ 52"
    using binade_bounds(1) [of "\<bar>x\<bar>"] assms by (simp add: divide_right_mono)
  then show ?thesis unfolding ulp_def by (rule max.mono) simp
qed

text \<open>Rounding keeps the sign, errs by at most half a unit, and is monotone.\<close>

lemma round_double_zero: "round_double 0 = 0"
  by (simp add: round_double_def round_half_even_def)

lemma round_double_minus: "round_double (- x) = - round_double x"
  by (simp add: round_double_def ulp_minus rhe_minus)

lemma round_double_nonneg: "0 \<le> x \<Longrightarrow> 0 \<le> round_double x"
proof -
  assume "0 \<le> x"
  then have "of_int 0 \<le> x / ulp x" using ulp_pos [of x] by simp
  then have "0 \<le> round_half_even (x / ulp x)" by (rule rhe_ge)
  then show ?thesis using ulp_pos [of x] by (simp add: round_double_def)
qed

lemma round_double_error: "\<bar>round_double x - x\<bar> \<le> ulp x / 2"
proof -
  have "\<bar>of_int (round_half_even (x / ulp x)) - x / ulp x\<bar> * ulp x \<le> 1 / 2 * ulp x"
    using rhe_error [of "x / ulp x"] ulp_pos [of x] by (intro mult_right_mono) simp_all
  moreover have "\<bar>of_int (round_half_even (x / ulp x)) - x / ulp x\<bar> * ulp x
      = \<bar>round_double x - x\<bar>"
  proof -
    have "(of_int (round_half_even (x / ulp x)) - x / ulp x) * ulp x = round_double x - x"
      using ulp_pos [of x] by (simp add: round_double_def left_diff_distrib)
    then have "\<bar>round_double x - x\<bar>
        = \<bar>of_int (round_half_even (x / ulp x)) - x / ulp x\<bar> * \<bar>ulp x\<bar>"
      by (simp only: abs_mult [symmetric])
    then show ?thesis using ulp_pos [of x] by simp
  qed
  ultimately show ?thesis by simp
qed

lemma round_double_upper:
  assumes "0 \<le> x"
  shows "round_double x \<le> 2 ^ 53 * ulp x"
proof -
  have "x / ulp x \<le> of_int (2 ^ 53)"
    using ulp_above [of x] ulp_pos [of x] assms by (simp add: field_simps)
  then have "round_half_even (x / ulp x) \<le> 2 ^ 53" by (rule rhe_le)
  then have "(of_int (round_half_even (x / ulp x)) :: real) \<le> 2 ^ 53"
    by (metis of_int_le_iff of_int_numeral of_int_power)
  then show ?thesis using ulp_pos [of x] by (simp add: round_double_def)
qed

lemma round_double_lower:
  assumes "2 ^ 52 * ulp y \<le> y"
  shows "2 ^ 52 * ulp y \<le> round_double y"
proof -
  have "of_int (2 ^ 52) \<le> y / ulp y"
    using assms ulp_pos [of y] by (simp add: field_simps)
  then have "2 ^ 52 \<le> round_half_even (y / ulp y)" by (rule rhe_ge)
  then have "(2 ^ 52 :: real) \<le> of_int (round_half_even (y / ulp y))"
    by (metis of_int_le_iff of_int_numeral of_int_power)
  then show ?thesis using ulp_pos [of y] by (simp add: round_double_def)
qed

lemma round_double_mono_pos:
  assumes "0 < x" and "x \<le> y"
  shows "round_double x \<le> round_double y"
proof -
  have u: "ulp x \<le> ulp y" using assms by (intro ulp_mono) simp_all
  show ?thesis
  proof (cases "ulp x = ulp y")
    case True
    have "x / ulp y \<le> y / ulp y" using assms ulp_pos [of y] by (simp add: divide_right_mono)
    then have "round_half_even (x / ulp y) \<le> round_half_even (y / ulp y)" by (rule rhe_mono)
    then show ?thesis using ulp_pos [of y] True by (simp add: round_double_def)
  next
    case False
    with u have lt: "ulp x < ulp y" by simp
    have xy: "x \<noteq> 0" "y \<noteq> 0" using assms by simp_all
    have "round_double x \<le> 2 ^ 53 * ulp x" using assms by (intro round_double_upper) simp
    also have "\<dots> = 2 ^ 52 * (2 * ulp x)" by simp
    also have "\<dots> \<le> 2 ^ 52 * ulp y" using ulp_gap(1) [OF xy lt] by (intro mult_left_mono) simp_all
    also have "\<dots> \<le> round_double y"
      using ulp_gap(2) [OF xy lt] assms by (intro round_double_lower) simp
    finally show ?thesis .
  qed
qed

lemma round_double_mono:
  assumes "x \<le> y"
  shows "round_double x \<le> round_double y"
proof -
  consider "0 < x" | "x \<le> 0" "0 \<le> y" | "y < 0" by linarith
  then show ?thesis
  proof cases
    case 1
    from 1 assms show ?thesis by (rule round_double_mono_pos)
  next
    case 2
    have "0 \<le> round_double (- x)" using 2 by (intro round_double_nonneg) simp
    then have "round_double x \<le> 0" by (simp add: round_double_minus)
    also have "0 \<le> round_double y" using 2 by (intro round_double_nonneg)
    finally show ?thesis .
  next
    case 3
    then have "round_double (- y) \<le> round_double (- x)"
      using assms by (intro round_double_mono_pos) simp_all
    then show ?thesis by (simp add: round_double_minus)
  qed
qed

text \<open>A multiple of a unit that is not finer than its own is rounded to itself.\<close>

lemma log2_scaled: "log 2 (2 ^ 53 * 2 powr y) = 53 + y"
proof -
  have "(2::real) ^ 53 * 2 powr y = 2 powr (53 + y)"
    by (simp only: two_powr_int_numeral(3) powr_add)
  then show ?thesis by simp
qed

lemma round_double_rep:
  assumes "x \<noteq> 0" and "x = of_int m * 2 powr (of_int k)" and "ulp_exp x \<le> k"
  shows "round_double x = x"
proof -
  define j where "j = nat (k - ulp_exp x)"
  have k: "of_int k = of_int (ulp_exp x) + (real j)" using assms(3) by (simp add: j_def)
  have "x / ulp x = of_int m * 2 powr (real j)"
    using assms(1) by (subst assms(2)) (simp add: ulp_powr k powr_add)
  also have "\<dots> = of_int (m * 2 ^ j)" by (simp add: powr_realpow)
  finally have q: "x / ulp x = of_int (m * 2 ^ j)" .
  have "round_double x = of_int (m * 2 ^ j) * ulp x"
    unfolding round_double_def q rhe_of_int ..
  also have "\<dots> = x / ulp x * ulp x" unfolding q ..
  also have "\<dots> = x" using ulp_pos [of x] by simp
  finally show ?thesis .
qed

lemma ulp_exp_below:
  assumes "r \<noteq> 0" and "\<bar>r\<bar> < 2 ^ 53 * 2 powr (of_int e)" and "- 1074 \<le> e"
  shows "ulp_exp r \<le> e"
proof -
  have "log 2 \<bar>r\<bar> < log 2 (2 ^ 53 * 2 powr (of_int e))"
    using assms(1,2) by (subst log_less_cancel_iff) simp_all
  also have "\<dots> = 53 + of_int e"
    by (rule log2_scaled)
  finally have "log 2 \<bar>r\<bar> < of_int (53 + e)" by simp
  then have "\<lfloor>log 2 \<bar>r\<bar>\<rfloor> < 53 + e" by (simp add: floor_less_iff)
  with assms(3) show ?thesis by (simp add: ulp_exp_def)
qed



lemma round_double_of_int:
  assumes "\<bar>n\<bar> < 2 ^ 53"
  shows "round_double (of_int n) = of_int n"
proof (cases "n = 0")
  case True
  then show ?thesis by (simp add: round_double_zero)
next
  case False
  have "\<bar>real_of_int n\<bar> < 2 ^ 53"
    using assms by (metis of_int_abs of_int_less_iff of_int_numeral of_int_power)
  then have "ulp_exp (of_int n) \<le> 0"
    using False by (intro ulp_exp_below) simp_all
  moreover have "real_of_int n = of_int n * 2 powr (of_int 0)" by simp
  ultimately show ?thesis using False by (intro round_double_rep [where m = n and k = 0]) simp_all
qed

lemma round_double_of_nat:
  assumes "n < 2 ^ 53"
  shows "round_double (real n) = real n"
proof -
  have "\<bar>int n\<bar> < 2 ^ 53" using assms by simp
  from round_double_of_int [OF this] show ?thesis by simp
qed

text \<open>Halving a binary64 value is exact, except at the smallest subnormal step.\<close>

lemma round_double_half:
  assumes "round_double s = s"
  shows "\<bar>round_double (s / 2) - s / 2\<bar> \<le> 1 / 2 ^ 1075"
proof (cases "s = 0")
  case True
  then show ?thesis by (simp add: round_double_zero)
next
  case False
  define e where "e = ulp_exp s"
  define n where "n = round_half_even (s / ulp s)"
  have u: "ulp s = 2 powr (of_int e)" using False by (simp add: ulp_powr e_def)
  have s: "s = of_int n * 2 powr (of_int e)"
    using assms by (simp add: round_double_def n_def u)
  have lg: "log 2 \<bar>s / 2\<bar> = log 2 \<bar>s\<bar> - 1"
    using False by (simp add: log_divide)
  have fl: "\<lfloor>log 2 \<bar>s / 2\<bar>\<rfloor> = \<lfloor>log 2 \<bar>s\<bar>\<rfloor> - 1"
    unfolding lg by simp
  show ?thesis
  proof (cases "- 1074 < e")
    case True
    then have "ulp_exp (s / 2) = e - 1"
      unfolding ulp_exp_def fl using True by (simp add: e_def ulp_exp_def max_def split: if_splits)
    moreover have "s / 2 = of_int n * 2 powr (of_int (e - 1))"
      by (subst s) (simp add: powr_diff)
    ultimately have "round_double (s / 2) = s / 2"
      using False by (intro round_double_rep [where m = n and k = "e - 1"]) simp_all
    then show ?thesis by simp
  next
    case False
    with ulp_exp_ge [of s] have e: "e = - 1074" by (simp add: e_def)
    have "ulp_exp (s / 2) \<le> ulp_exp s"
      using \<open>s \<noteq> 0\<close> by (intro ulp_exp_mono) simp_all
    with ulp_exp_ge [of "s / 2"] e have "ulp_exp (s / 2) = - 1074" by (simp add: e_def)
    then have "ulp (s / 2) = 2 powr (- 1074)" using \<open>s \<noteq> 0\<close> by (simp add: ulp_powr)
    then have "ulp (s / 2) / 2 = 1 / 2 ^ 1075"
      by (simp add: two_powr_int_numeral(2) [symmetric])
    with round_double_error [of "s / 2"] show ?thesis by simp
  qed
qed

section \<open>Properties of JavaScript numbers\<close>

lemma is_doubleD: "is_double x \<Longrightarrow> round_double x = x" "is_double x \<Longrightarrow> \<bar>x\<bar> < double_limit"
  by (simp_all add: is_double_def)




lemma is_double_of_nat: "n < 2 ^ 53 \<Longrightarrow> is_double (real n)"
proof -
  assume n: "n < 2 ^ 53"
  then have "real n < 2 ^ 53" by (metis of_nat_less_iff of_nat_numeral of_nat_power)
  also have "(2::real) ^ 53 < double_limit"
    unfolding double_limit_def by (intro power_strict_increasing) simp_all
  finally show ?thesis using n by (simp add: is_double_def round_double_of_nat)
qed

text \<open>A result between two binary64 values is a finite number between them.\<close>

lemma to_number_between:
  assumes "lo \<le> x" and "x \<le> hi" and "is_double lo" and "is_double hi"
  shows "to_number x = Num (round_double x)" and "lo \<le> round_double x" and "round_double x \<le> hi"
proof -
  have "round_double lo \<le> round_double x" using assms(1) by (rule round_double_mono)
  then show l: "lo \<le> round_double x" using assms(3) by (simp add: is_doubleD)
  have "round_double x \<le> round_double hi" using assms(2) by (rule round_double_mono)
  then show h: "round_double x \<le> hi" using assms(4) by (simp add: is_doubleD)
  from l h is_doubleD(2) [OF assms(3)] is_doubleD(2) [OF assms(4)]
  have "\<not> double_limit \<le> round_double x" "\<not> round_double x \<le> - double_limit"
    by linarith+
  then show "to_number x = Num (round_double x)"
    by (simp add: to_number_def Let_def)
qed



lemma js_of_nat_exact: "n < 2 ^ 53 \<Longrightarrow> js_of_nat n = Num (real n)"
  using to_number_between(1) [of "real n" "real n" "real n"]
  by (simp add: js_of_nat_def is_double_of_nat is_doubleD)

lemma round_error_bounded:
  assumes "0 \<le> y" and "y \<le> m" and "1 \<le> m"
  shows "\<bar>round_double y - y\<bar> \<le> m / 2 ^ 53"
proof (cases "y = 0")
  case True
  with assms show ?thesis by (simp add: round_double_zero)
next
  case False
  have "y / 2 ^ 52 \<le> m / 2 ^ 52" using assms by (simp add: divide_right_mono)
  moreover have "1 / 2 ^ 1074 \<le> 1 / (2::real) ^ 52"
    by (intro divide_left_mono power_increasing) simp_all
  then have "1 / 2 ^ 1074 \<le> m / 2 ^ 52"
    using assms(3) by (simp add: field_simps del: power_increasing_iff)
  ultimately have "ulp y \<le> m / 2 ^ 52"
    using ulp_le [OF False] assms(1) by simp
  with round_double_error [of y] show ?thesis by simp
qed

section \<open>Properties of the crop geometry\<close>

text \<open>The equations that evaluate the arithmetic of the source on numerals.\<close>

lemmas js_eval = js_literal_def js_of_nat_def js_sub_def fp_eval

lemma geometry_is_reference:
  "cropImageToFace_geometry d img padding = computeCrop_spec (box d) (dims_of img) padding"
  by (simp add: cropImageToFace_geometry_def computeCrop_spec_def dims_of_def Let_def
      spec_faceCenterX_def spec_faceCenterY_def spec_cropSize_def)

lemma scenario_center:
  "cropImageToFace_geometry
      \<lparr>box = \<lparr>box_x = Num 400, box_y = Num 300, box_width = Num 120, box_height = Num 160\<rparr>,
       score = sc\<rparr>
      \<lparr>img_src = u, img_width = 1000, img_height = 800\<rparr> (js_literal 1.8)
   = \<lparr>cropX = Num 316, cropY = Num 236, cropWidth = Num 288, cropHeight = Num 288\<rparr>"
  by (simp add: cropImageToFace_geometry_def js_eval)

text \<open>The four fields of the crop, each in terms of the ones before it.\<close>

lemma geometry_fields:
  "cropX (cropImageToFace_geometry d img p)
     = js_max (Num 0) (js_sub (spec_faceCenterX (box d)) (js_half (spec_cropSize (box d) p)))"
  "cropY (cropImageToFace_geometry d img p)
     = js_max (Num 0) (js_sub (spec_faceCenterY (box d)) (js_half (spec_cropSize (box d) p)))"
  "cropWidth (cropImageToFace_geometry d img p)
     = js_min (spec_cropSize (box d) p)
         (js_sub (js_of_nat (img_width img)) (cropX (cropImageToFace_geometry d img p)))"
  "cropHeight (cropImageToFace_geometry d img p)
     = js_min (spec_cropSize (box d) p)
         (js_sub (js_of_nat (img_height img)) (cropY (cropImageToFace_geometry d img p)))"
  by (simp_all add: cropImageToFace_geometry_def Let_def spec_faceCenterX_def
      spec_faceCenterY_def spec_cropSize_def)





lemma round_error_abs:
  assumes "\<bar>y\<bar> \<le> m" and "1 \<le> m"
  shows "\<bar>round_double y - y\<bar> \<le> m / 2 ^ 53"
proof (cases "0 \<le> y")
  case True
  with assms show ?thesis by (intro round_error_bounded) simp_all
next
  case False
  with assms have "\<bar>round_double (- y) - (- y)\<bar> \<le> m / 2 ^ 53"
    by (intro round_error_bounded) simp_all
  moreover have "\<bar>round_double (- y) - (- y)\<bar> = \<bar>round_double y - y\<bar>"
    unfolding round_double_minus by (simp only: abs_minus_commute minus_diff_minus abs_minus)
  ultimately show ?thesis by simp
qed

text \<open>A value of moderate size is rounded to a finite number close to it.\<close>

lemma to_number_near:
  assumes "\<bar>y\<bar> \<le> m" and "1 \<le> m" and "m \<le> 2 ^ 1023"
  shows "to_number y = Num (round_double y)" and "\<bar>round_double y - y\<bar> \<le> m / 2 ^ 53"
proof -
  show e: "\<bar>round_double y - y\<bar> \<le> m / 2 ^ 53" using assms(1,2) by (rule round_error_abs)
  have "m / 2 ^ 53 < m" using assms(2) by (simp add: field_simps)
  with e assms(1) have "\<bar>round_double y\<bar> < 2 * m" by linarith
  also have "2 * m \<le> 2 * 2 ^ 1023" using assms(3) by simp
  also have "\<dots> = double_limit" by (simp add: double_limit_def)
  finally have "\<bar>round_double y\<bar> < double_limit" .
  then show "to_number y = Num (round_double y)"
    by (simp add: to_number_def Let_def abs_less_iff not_le)
qed


text \<open>
  One axis of an interior face: the crop side differs from the exact product by at most
  a few units in the last place of the image size.
\<close>

lemma axis_square:
  fixes a w S :: real and n :: nat
  assumes a: "0 \<le> a" and w: "0 \<le> w" and S: "0 \<le> S" and n: "0 < n" "n < 2 ^ 53"
    and left: "S / 2 \<le> a + w / 2" and right: "a + w / 2 + S / 2 \<le> real n"
  shows "\<exists>x wd. js_max (Num 0)
                  (js_sub (js_add (Num a) (js_half (Num w))) (js_half (to_number S))) = Num x
           \<and> js_min (to_number S) (js_sub (js_of_nat n) (Num x)) = Num wd
           \<and> \<bar>wd - S\<bar> \<le> real n / 2 ^ 49"
proof -
  define N where "N = real n"
  define e where "e = N / 2 ^ 53"
  have N1: "1 \<le> N" using n(1) by (simp add: N_def)
  have "N < 2 ^ 53" unfolding N_def using n(2)
    by (metis of_nat_less_iff of_nat_numeral of_nat_power)
  also have "(2::real) ^ 53 \<le> 2 ^ 1022" by (intro power_increasing) simp_all
  finally have N2: "N \<le> 2 ^ 1023" "2 * N \<le> 2 ^ 1023" by simp_all
  have e0: "0 \<le> e" "9 * e \<le> N" using N1 by (simp_all add: e_def)
  have e2: "2 * N / 2 ^ 53 = 2 * e" by (simp add: e_def)
  have N21: "1 \<le> 2 * N" using N1 by simp
  have right': "a + w / 2 + S / 2 \<le> N" using right by (simp add: N_def)
  \<comment> \<open>half the face extent\<close>
  have "\<bar>w / 2\<bar> \<le> N" using a w S right' by simp
  note r1 = to_number_near [OF this N1 N2(1), folded e_def]
  define w2 where "w2 = round_double (w / 2)"
  have w2: "js_half (Num w) = Num w2" "\<bar>w2 - w / 2\<bar> \<le> e"
    using r1 by (simp_all add: w2_def)
  \<comment> \<open>the face centre\<close>
  have "\<bar>a + w2\<bar> \<le> 2 * N" using a w S right' w2(2) e0 by linarith
  note r2 = to_number_near [OF this N21 N2(2), unfolded e2]
  define c where "c = round_double (a + w2)"
  have c: "js_add (Num a) (Num w2) = Num c" "\<bar>c - (a + w2)\<bar> \<le> 2 * e"
    using r2 by (simp_all add: c_def)
  \<comment> \<open>the crop size and its half\<close>
  have "\<bar>S\<bar> \<le> N" using S left right' by linarith
  note r3 = to_number_near [OF this N1 N2(1), folded e_def]
  define sr where "sr = round_double S"
  have sr: "to_number S = Num sr" "\<bar>sr - S\<bar> \<le> e"
    using r3 by (simp_all add: sr_def)
  have "\<bar>sr / 2\<bar> \<le> N" using sr(2) S left right' e0 by linarith
  note r4 = to_number_near [OF this N1 N2(1), folded e_def]
  define hf where "hf = round_double (sr / 2)"
  have hf: "js_half (Num sr) = Num hf" "\<bar>hf - sr / 2\<bar> \<le> e"
    using r4 by (simp_all add: hf_def)
  \<comment> \<open>the crop origin\<close>
  have "\<bar>c - hf\<bar> \<le> 2 * N" using c(2) w2(2) hf(2) sr(2) a w S left right' e0 by linarith
  note r5 = to_number_near [OF this N21 N2(2), unfolded e2]
  define og where "og = round_double (c - hf)"
  have og: "js_sub (Num c) (Num hf) = Num og" "\<bar>og - (c - hf)\<bar> \<le> 2 * e"
    using r5 by (simp_all add: og_def js_sub_def)
  define x where "x = max 0 og"
  have x: "js_max (Num 0) (Num og) = Num x" by (simp add: x_def max_def)
  have x0: "0 \<le> x" by (simp add: x_def)
  have xe: "\<bar>x - (a + w / 2 - S / 2)\<bar> \<le> 13 / 2 * e"
    unfolding x_def using og(2) c(2) w2(2) hf(2) sr(2) left by linarith
  \<comment> \<open>the room to the far edge\<close>
  have "\<bar>N - x\<bar> \<le> 2 * N" using xe x0 a w S left right' e0 by linarith
  note r6 = to_number_near [OF this N21 N2(2), unfolded e2]
  define rm where "rm = round_double (N - x)"
  have rm: "js_sub (js_of_nat n) (Num x) = Num rm" "\<bar>rm - (N - x)\<bar> \<le> 2 * e"
    using r6 by (simp_all add: rm_def js_sub_def js_of_nat_exact [OF n(2)] N_def)
  define wd where "wd = min sr rm"
  have wd: "js_min (Num sr) (Num rm) = Num wd" by (simp add: wd_def min_def)
  have "\<bar>wd - S\<bar> \<le> 16 * e"
    unfolding wd_def using rm(2) xe sr(2) left right' e0 by linarith
  also have "16 * e = real n / 2 ^ 49" by (simp add: e_def N_def)
  finally have "\<bar>wd - S\<bar> \<le> real n / 2 ^ 49" .
  with w2(1) c(1) sr(1) hf(1) og(1) x rm(1) wd show ?thesis by simp
qed

text \<open>The binary64 values of the literals used below.\<close>

lemma literals:
  "js_literal 1.8 = Num (8106479329266893 / 2 ^ 52)"
  "js_literal 872.04 = Num (958818119885783 / 2 ^ 40)"
  "js_literal 91.4 = Num (3215851608919245 / 2 ^ 45)"
  "js_literal 555.4 = Num (4885350064534323 / 2 ^ 43)"
  by (simp_all add: js_eval)



text \<open>Both axes of an interior face.\<close>

lemma interior_square:
  assumes b: "box d = \<lparr>box_x = Num bx, box_y = Num bt, box_width = Num bw, box_height = Num bh\<rparr>"
    and p: "padding = Num p" "1 \<le> p"
    and pos: "0 \<le> bx" "0 \<le> bt" "0 < bw" "0 < bh"
    and dims: "img_width img < 2 ^ 53" "img_height img < 2 ^ 53"
    and ix: "max bw bh * p / 2 \<le> bx + bw / 2"
      "bx + bw / 2 + max bw bh * p / 2 \<le> real (img_width img)"
    and iy: "max bw bh * p / 2 \<le> bt + bh / 2"
      "bt + bh / 2 + max bw bh * p / 2 \<le> real (img_height img)"
  shows "\<exists>wd ht. cropWidth (cropImageToFace_geometry d img padding) = Num wd
           \<and> cropHeight (cropImageToFace_geometry d img padding) = Num ht
           \<and> \<bar>wd - max bw bh * p\<bar> \<le> real (img_width img) / 2 ^ 49
           \<and> \<bar>ht - max bw bh * p\<bar> \<le> real (img_height img) / 2 ^ 49"
proof -
  let ?r = "cropImageToFace_geometry d img padding"
  let ?S = "max bw bh * p"
  have S: "0 \<le> ?S" using pos(3) p(2) by simp
  have s: "spec_cropSize (box d) padding = to_number ?S"
    by (simp add: spec_cropSize_def b p(1) max_def)
  have "0 < real (img_width img)" using ix pos S by linarith
  then have w0: "0 < img_width img" by simp
  have "0 < real (img_height img)" using iy pos S by linarith
  then have h0: "0 < img_height img" by simp
  have bw: "0 \<le> bw" and bh: "0 \<le> bh" using pos by simp_all
  from axis_square [OF pos(1) bw S w0 dims(1) ix]
  obtain x wd where ax:
    "js_max (Num 0) (js_sub (js_add (Num bx) (js_half (Num bw))) (js_half (to_number ?S))) = Num x"
    "js_min (to_number ?S) (js_sub (js_of_nat (img_width img)) (Num x)) = Num wd"
    "\<bar>wd - ?S\<bar> \<le> real (img_width img) / 2 ^ 49"
    by blast
  have f: "box_x (box d) = Num bx" "box_y (box d) = Num bt"
    "box_width (box d) = Num bw" "box_height (box d) = Num bh"
    by (simp_all add: b)
  have x: "cropX ?r = Num x"
    by (simp only: geometry_fields(1) spec_faceCenterX_def s f ax(1))
  have wd: "cropWidth ?r = Num wd"
    by (simp only: geometry_fields(3) s x ax(2))
  from axis_square [OF pos(2) bh S h0 dims(2) iy]
  obtain y ht where ay:
    "js_max (Num 0) (js_sub (js_add (Num bt) (js_half (Num bh))) (js_half (to_number ?S))) = Num y"
    "js_min (to_number ?S) (js_sub (js_of_nat (img_height img)) (Num y)) = Num ht"
    "\<bar>ht - ?S\<bar> \<le> real (img_height img) / 2 ^ 49"
    by blast
  have y: "cropY ?r = Num y"
    by (simp only: geometry_fields(2) spec_faceCenterY_def s f ay(1))
  have ht: "cropHeight ?r = Num ht"
    by (simp only: geometry_fields(4) s y ay(2))
  from wd ht ax(3) ay(3) show ?thesis by blast
qed

text \<open>
  The face \<open>near_edge_face\<close> in the picture of 1000 by 800 with the default padding: in
  exact arithmetic on the given numbers the face centre is at least half the crop size
  away from all four edges, yet the code returns a width (164.51999999999998) smaller than
  the height (164.52).
\<close>

theorem crop_square_counterexample:
  "box near_edge_face
     = \<lparr>box_x = Num (958818119885783 / 2 ^ 40), box_y = Num 300,
        box_width = Num (3215851608919245 / 2 ^ 45),
        box_height = Num (3215851608919245 / 2 ^ 45)\<rparr>
   \<and> default_padding = Num (8106479329266893 / 2 ^ 52)
   \<and> (3215851608919245 / 2 ^ 45 * (8106479329266893 / 2 ^ 52) / 2 :: real)
        \<le> 958818119885783 / 2 ^ 40 + 3215851608919245 / 2 ^ 45 / 2
   \<and> (958818119885783 / 2 ^ 40 + 3215851608919245 / 2 ^ 45 / 2
        + 3215851608919245 / 2 ^ 45 * (8106479329266893 / 2 ^ 52) / 2 :: real) \<le> 1000
   \<and> (3215851608919245 / 2 ^ 45 * (8106479329266893 / 2 ^ 52) / 2 :: real)
        \<le> 300 + 3215851608919245 / 2 ^ 45 / 2
   \<and> (300 + 3215851608919245 / 2 ^ 45 / 2
        + 3215851608919245 / 2 ^ 45 * (8106479329266893 / 2 ^ 52) / 2 :: real) \<le> 800
   \<and> cropImageToFace_geometry near_edge_face sample_image default_padding
       = \<lparr>cropX = Num (1837239949548585 / 2 ^ 41), cropY = Num (4634485491540951 / 2 ^ 44),
          cropWidth = Num (361783306003415 / 2 ^ 41),
          cropHeight = Num (5788532896054641 / 2 ^ 45)\<rparr>
   \<and> (361783306003415 / 2 ^ 41 :: real) < 5788532896054641 / 2 ^ 45"
  by (simp add: near_edge_face_def sample_image_def default_padding_def
      cropImageToFace_geometry_def js_eval)

text \<open>
  Claim C2, amended. The crop computed by \<open>cropImageToFace\<close> is the reference
  \<open>computeCrop\<close> of the specification, over JavaScript numbers. For the image 1000 by 800,
  the box (400, 300, 120, 160) and padding 1.8 it is (316, 236, 288, 288). For a box with
  non-negative origin and positive size and a padding of at least one, in an image whose
  sides are below \<open>2^53\<close>: whenever the face centre is at least half the crop size away
  from all four image edges, the crop is square up to rounding, its width within
  \<open>W / 2^49\<close> and its height within \<open>H / 2^49\<close> of
  \<open>max box.width box.height * padding\<close>.
\<close>

theorem crop_equals_reference:
  "cropImageToFace_geometry d img padding = computeCrop_spec (box d) (dims_of img) padding
   \<and> cropImageToFace_geometry
        \<lparr>box = \<lparr>box_x = Num 400, box_y = Num 300, box_width = Num 120, box_height = Num 160\<rparr>,
         score = sc\<rparr>
        \<lparr>img_src = u, img_width = 1000, img_height = 800\<rparr> (js_literal 1.8)
      = \<lparr>cropX = Num 316, cropY = Num 236, cropWidth = Num 288, cropHeight = Num 288\<rparr>
   \<and> (box d = \<lparr>box_x = Num bx, box_y = Num bt, box_width = Num bw, box_height = Num bh\<rparr>
        \<and> padding = Num p \<and> 1 \<le> p \<and> 0 \<le> bx \<and> 0 \<le> bt \<and> 0 < bw \<and> 0 < bh
        \<and> img_width img < 2 ^ 53 \<and> img_height img < 2 ^ 53
        \<and> max bw bh * p / 2 \<le> bx + bw / 2
        \<and> bx + bw / 2 + max bw bh * p / 2 \<le> real (img_width img)
        \<and> max bw bh * p / 2 \<le> bt + bh / 2
        \<and> bt + bh / 2 + max bw bh * p / 2 \<le> real (img_height img)
      \<longrightarrow> (\<exists>wd ht. cropWidth (cropImageToFace_geometry d img padding) = Num wd
             \<and> cropHeight (cropImageToFace_geometry d img padding) = Num ht
             \<and> \<bar>wd - max bw bh * p\<bar> \<le> real (img_width img) / 2 ^ 49
             \<and> \<bar>ht - max bw bh * p\<bar> \<le> real (img_height img) / 2 ^ 49))"
  using geometry_is_reference scenario_center interior_square by blast

theorem crop_equals_reference_witness:
  "box sample_face
     = \<lparr>box_x = Num 400, box_y = Num 300, box_width = Num 120, box_height = Num 160\<rparr>
   \<and> default_padding = Num (8106479329266893 / 2 ^ 52)
   \<and> (1 :: real) \<le> 8106479329266893 / 2 ^ 52
   \<and> img_width sample_image < 2 ^ 53 \<and> img_height sample_image < 2 ^ 53
   \<and> (max 120 160 * (8106479329266893 / 2 ^ 52) / 2 :: real) \<le> 400 + 120 / 2
   \<and> (400 + 120 / 2 + max 120 160 * (8106479329266893 / 2 ^ 52) / 2 :: real)
        \<le> real (img_width sample_image)
   \<and> (max 120 160 * (8106479329266893 / 2 ^ 52) / 2 :: real) \<le> 300 + 160 / 2
   \<and> (300 + 160 / 2 + max 120 160 * (8106479329266893 / 2 ^ 52) / 2 :: real)
        \<le> real (img_height sample_image)
   \<and> (\<exists>wd ht. cropWidth (cropImageToFace_geometry sample_face sample_image default_padding) = Num wd
         \<and> cropHeight (cropImageToFace_geometry sample_face sample_image default_padding) = Num ht
         \<and> \<bar>wd - max 120 160 * (8106479329266893 / 2 ^ 52)\<bar> \<le> 1000 / 2 ^ 49
         \<and> \<bar>ht - max 120 160 * (8106479329266893 / 2 ^ 52)\<bar> \<le> 800 / 2 ^ 49)"
proof -
  have b: "box sample_face
     = \<lparr>box_x = Num 400, box_y = Num 300, box_width = Num 120, box_height = Num 160\<rparr>"
    by (simp add: sample_face_def)
  have p: "default_padding = Num (8106479329266893 / 2 ^ 52)"
    unfolding default_padding_def by (rule literals(1))
  have h: "(1 :: real) \<le> 8106479329266893 / 2 ^ 52"
    "img_width sample_image < 2 ^ 53" "img_height sample_image < 2 ^ 53"
    "(max 120 160 * (8106479329266893 / 2 ^ 52) / 2 :: real) \<le> 400 + 120 / 2"
    "(400 + 120 / 2 + max 120 160 * (8106479329266893 / 2 ^ 52) / 2 :: real)
        \<le> real (img_width sample_image)"
    "(max 120 160 * (8106479329266893 / 2 ^ 52) / 2 :: real) \<le> 300 + 160 / 2"
    "(300 + 160 / 2 + max 120 160 * (8106479329266893 / 2 ^ 52) / 2 :: real)
        \<le> real (img_height sample_image)"
    by (simp_all add: sample_image_def)
  have w: "real (img_width sample_image) = 1000" "real (img_height sample_image) = 800"
    by (simp_all add: sample_image_def)
  have hyp: "box sample_face
       = \<lparr>box_x = Num 400, box_y = Num 300, box_width = Num 120, box_height = Num 160\<rparr>
     \<and> default_padding = Num (8106479329266893 / 2 ^ 52)
     \<and> (1 :: real) \<le> 8106479329266893 / 2 ^ 52
     \<and> (0 :: real) \<le> 400 \<and> (0 :: real) \<le> 300 \<and> (0 :: real) < 120 \<and> (0 :: real) < 160
     \<and> img_width sample_image < 2 ^ 53 \<and> img_height sample_image < 2 ^ 53
     \<and> (max 120 160 * (8106479329266893 / 2 ^ 52) / 2 :: real) \<le> 400 + 120 / 2
     \<and> (400 + 120 / 2 + max 120 160 * (8106479329266893 / 2 ^ 52) / 2 :: real)
          \<le> real (img_width sample_image)
     \<and> (max 120 160 * (8106479329266893 / 2 ^ 52) / 2 :: real) \<le> 300 + 160 / 2
     \<and> (300 + 160 / 2 + max 120 160 * (8106479329266893 / 2 ^ 52) / 2 :: real)
          \<le> real (img_height sample_image)"
    using b p h by simp
  have "\<exists>wd ht. cropWidth (cropImageToFace_geometry sample_face sample_image default_padding) = Num wd
         \<and> cropHeight (cropImageToFace_geometry sample_face sample_image default_padding) = Num ht
         \<and> \<bar>wd - max 120 160 * (8106479329266893 / 2 ^ 52)\<bar> \<le> 1000 / 2 ^ 49
         \<and> \<bar>ht - max 120 160 * (8106479329266893 / 2 ^ 52)\<bar> \<le> 800 / 2 ^ 49"
    using crop_equals_reference [where d = sample_face and img = sample_image
        and padding = default_padding and bx = 400 and bt = 300 and bw = 120 and bh = 160
        and p = "8106479329266893 / 2 ^ 52", THEN conjunct2, THEN conjunct2, THEN mp, OF hyp]
    unfolding w .
  with b p h show ?thesis by blast
qed




lemmas platform_defs = good_platform_def offline_platform_def import_failing_platform_def
  faceless_platform_def undecodable_platform_def no_context_platform_def
  inference_failing_platform_def network_error_def inference_error_def

section \<open>Properties of loadModels\<close>

lemma loadModels_fetch_cases:
  "loadFromUri w MODEL_URL = Inl e \<Longrightarrow>
     loadModels_fetch w g = (Rejected e, g\<lparr>fetch_calls := fetch_calls g + 1\<rparr>)"
  "loadFromUri w MODEL_URL = Inr u \<Longrightarrow>
     loadModels_fetch w g = (Resolved (), g\<lparr>fetch_calls := fetch_calls g + 1, modelsLoaded := True\<rparr>)"
  by (simp_all add: loadModels_fetch_def)

lemma loadModels_loaded: "modelsLoaded g \<Longrightarrow> loadModels w g = (Resolved (), g)"
  by (simp add: loadModels_def)

text \<open>\<open>loadModels\<close> settles whenever the import and the download do.\<close>

lemma loadModels_settles: "fst (loadModels w g) \<noteq> Pending"
  by (auto simp: loadModels_def loadModels_fetch_def split: sum.splits)

text \<open>
  As long as a set flag implies an imported library (true initially and kept by every
  call), a resolved \<open>loadModels\<close> leaves the library imported.
\<close>

lemma loadModels_resolved_faceapi:
  "faceapi g \<or> \<not> modelsLoaded g \<Longrightarrow> loadModels w g = (Resolved u, g1) \<Longrightarrow> faceapi g1"
  by (auto simp: loadModels_def loadModels_fetch_def split: if_splits sum.splits)

lemma loadModels_rejected_flag:
  "fst (loadModels w g) = Rejected e \<Longrightarrow> \<not> modelsLoaded (snd (loadModels w g))"
  by (auto simp: loadModels_def loadModels_fetch_def split: if_splits sum.splits)

lemma loadModels_rejected_error:
  "fst (loadModels w g) = Rejected e \<Longrightarrow>
     import_faceapi w = Inl e \<or> loadFromUri w MODEL_URL = Inl e"
  by (auto simp: loadModels_def loadModels_fetch_def split: if_splits sum.splits)

lemma loadModels_attempts:
  "\<not> modelsLoaded g \<Longrightarrow>
     (if faceapi g then fetch_calls (snd (loadModels w g)) = fetch_calls g + 1
                        \<and> import_calls (snd (loadModels w g)) = import_calls g
      else import_calls (snd (loadModels w g)) = import_calls g + 1)"
  by (auto simp: loadModels_def loadModels_fetch_def split: sum.splits)

lemma loadModels_sequence_loaded:
  "modelsLoaded g \<Longrightarrow> loadModels_sequence ws g = g"
  by (induction ws) (simp_all add: loadModels_loaded)

lemma loadModels_success:
  assumes "\<not> modelsLoaded g" and "faceapi g \<or> import_faceapi w = Inr ()"
    and "loadFromUri w MODEL_URL = Inr ()"
  shows "fst (loadModels w g) = Resolved ()"
    and "modelsLoaded (snd (loadModels w g))"
    and "fetch_calls (snd (loadModels w g)) = fetch_calls g + 1"
  using assms by (auto simp: loadModels_def loadModels_fetch_def)

text \<open>
  Claim C8. A failed load is not remembered. When the import fails, or the import is
  available and the download fails, \<open>loadModels\<close> rejects with that very error. After any
  rejection \<open>modelsLoaded\<close> is still false, and the next call, whatever the platform
  answers then, starts the import again (when the library is still missing) or the
  download again (when the library is there).
\<close>

theorem failed_load_not_cached:
  "(\<not> modelsLoaded g \<and> \<not> faceapi g \<and> import_faceapi w = Inl e
      \<longrightarrow> fst (loadModels w g) = Rejected e)
   \<and> (\<not> modelsLoaded g \<and> (faceapi g \<or> import_faceapi w = Inr ())
        \<and> loadFromUri w MODEL_URL = Inl e
      \<longrightarrow> fst (loadModels w g) = Rejected e)
   \<and> (fst (loadModels w g) = Rejected e
      \<longrightarrow> \<not> modelsLoaded (snd (loadModels w g))
        \<and> (import_faceapi w = Inl e \<or> loadFromUri w MODEL_URL = Inl e)
        \<and> (if faceapi (snd (loadModels w g))
            then fetch_calls (snd (loadModels w' (snd (loadModels w g))))
                   = fetch_calls (snd (loadModels w g)) + 1
            else import_calls (snd (loadModels w' (snd (loadModels w g))))
                   = import_calls (snd (loadModels w g)) + 1))"
proof (intro conjI impI)
  assume "\<not> modelsLoaded g \<and> \<not> faceapi g \<and> import_faceapi w = Inl e"
  then show "fst (loadModels w g) = Rejected e"
    by (simp add: loadModels_def)
next
  assume "\<not> modelsLoaded g \<and> (faceapi g \<or> import_faceapi w = Inr ())
        \<and> loadFromUri w MODEL_URL = Inl e"
  then show "fst (loadModels w g) = Rejected e"
    by (auto simp: loadModels_def loadModels_fetch_cases(1))
next
  assume r: "fst (loadModels w g) = Rejected e"
  then show "\<not> modelsLoaded (snd (loadModels w g))"
    by (rule loadModels_rejected_flag)
  from r show "import_faceapi w = Inl e \<or> loadFromUri w MODEL_URL = Inl e"
    by (rule loadModels_rejected_error)
  from r have "\<not> modelsLoaded (snd (loadModels w g))"
    by (rule loadModels_rejected_flag)
  from loadModels_attempts [OF this, of w']
  show "if faceapi (snd (loadModels w g))
        then fetch_calls (snd (loadModels w' (snd (loadModels w g))))
               = fetch_calls (snd (loadModels w g)) + 1
        else import_calls (snd (loadModels w' (snd (loadModels w g))))
               = import_calls (snd (loadModels w g)) + 1"
    by (simp split: if_splits)
qed

theorem failed_load_not_cached_witness:
  "\<not> modelsLoaded initial_gateway \<and> \<not> faceapi initial_gateway
   \<and> import_faceapi import_failing_platform = Inl network_error
   \<and> import_faceapi offline_platform = Inr ()
   \<and> loadFromUri offline_platform MODEL_URL = Inl network_error
   \<and> fst (loadModels import_failing_platform initial_gateway) = Rejected network_error
   \<and> fst (loadModels offline_platform initial_gateway) = Rejected network_error
   \<and> \<not> modelsLoaded (snd (loadModels offline_platform initial_gateway))
   \<and> fetch_calls (snd (loadModels good_platform (snd (loadModels offline_platform initial_gateway)))) = 2
   \<and> import_calls (snd (loadModels good_platform
        (snd (loadModels import_failing_platform initial_gateway)))) = 2"
  using failed_load_not_cached [of initial_gateway import_failing_platform network_error good_platform]
    failed_load_not_cached [of initial_gateway offline_platform network_error good_platform]
  by (simp add: platform_defs initial_gateway_def loadModels_def loadModels_fetch_def)

text \<open>
  Two calls in a row, the first with the download failing: the download is started twice,
  not once.
\<close>

theorem sequential_loads_fetch_once_counterexample:
  "fetch_calls (loadModels_sequence [offline_platform, good_platform] initial_gateway) = 2"
  by (simp add: platform_defs initial_gateway_def loadModels_def loadModels_fetch_def)

text \<open>
  Claim C6, amended. When the first of N sequential calls (N at least one) starts with the
  flag unset and its import and download succeed, the N calls start exactly one download,
  the flag is set afterwards, and the calls after the first change nothing. Once the flag
  is set, any number of further calls, on any platform, leave the flag set and start no
  import and no download.
\<close>

theorem sequential_loads_fetch_once:
  "(\<not> modelsLoaded g \<and> (faceapi g \<or> import_faceapi w = Inr ())
      \<and> loadFromUri w MODEL_URL = Inr ()
     \<longrightarrow> fetch_calls (loadModels_sequence (w # ws) g) = fetch_calls g + 1
       \<and> modelsLoaded (loadModels_sequence (w # ws) g)
       \<and> loadModels_sequence (w # ws) g = snd (loadModels w g))
   \<and> (modelsLoaded g \<longrightarrow> loadModels_sequence ws g = g)"
proof (intro conjI impI)
  assume h: "\<not> modelsLoaded g \<and> (faceapi g \<or> import_faceapi w = Inr ())
      \<and> loadFromUri w MODEL_URL = Inr ()"
  then have l: "modelsLoaded (snd (loadModels w g))"
    and f: "fetch_calls (snd (loadModels w g)) = fetch_calls g + 1"
    by (simp_all add: loadModels_success)
  from l show e: "loadModels_sequence (w # ws) g = snd (loadModels w g)"
    by (simp add: loadModels_sequence_loaded)
  from e f show "fetch_calls (loadModels_sequence (w # ws) g) = fetch_calls g + 1" by simp
  from e l show "modelsLoaded (loadModels_sequence (w # ws) g)" by simp
next
  assume "modelsLoaded g"
  then show "loadModels_sequence ws g = g" by (rule loadModels_sequence_loaded)
qed

theorem sequential_loads_fetch_once_witness:
  "\<not> modelsLoaded initial_gateway
   \<and> import_faceapi good_platform = Inr () \<and> loadFromUri good_platform MODEL_URL = Inr ()
   \<and> fetch_calls (loadModels_sequence [good_platform, offline_platform, good_platform] initial_gateway) = 1
   \<and> modelsLoaded (loadModels_sequence [good_platform, offline_platform, good_platform] initial_gateway)
   \<and> modelsLoaded (snd (loadModels good_platform initial_gateway))
   \<and> loadModels_sequence [offline_platform, import_failing_platform]
        (snd (loadModels good_platform initial_gateway))
      = snd (loadModels good_platform initial_gateway)"
  using sequential_loads_fetch_once
      [of initial_gateway good_platform "[offline_platform, good_platform]"]
    sequential_loads_fetch_once
      [of "snd (loadModels good_platform initial_gateway)" _ "[offline_platform, import_failing_platform]"]
  by (simp add: platform_defs initial_gateway_def loadModels_def loadModels_fetch_def)

section \<open>Overlapping calls\<close>

text \<open>A call that runs alone, with nothing in between, is \<open>loadModels\<close>.\<close>

lemma lone_call_is_loadModels:
  assumes "tasks s i = NotStarted"
  shows "loop_run [Call i, ImportSettled i (import_faceapi w), FetchSettled i (loadFromUri w MODEL_URL)] s
       = s\<lparr>gate := snd (loadModels w (gate s)),
           tasks := (tasks s)(i := Done (fst (loadModels w (gate s))))\<rparr>"
  using assms
  by (auto simp: loadModels_def loadModels_fetch_def split: sum.splits)

text \<open>
  Claim C7 says that two calls of \<open>loadModels\<close> issued while the model is still loading
  trigger no duplicate download, so that at most one download is made per process; the
  comments of the module say the same (\<open>to avoid reloading\<close>, \<open>loaded only once\<close>). The code
  does otherwise. Two calls start before any load has finished, both imports and both
  downloads succeed: each call passes the test of line 15 while the flag is still unset,
  and \<open>loadFromUri\<close> is started twice.
\<close>

theorem concurrent_loads_fetch_twice:
  "fetch_calls (gate (loop_run
      [Call 0, Call 1, ImportSettled 0 (Inr ()), ImportSettled 1 (Inr ()),
       FetchSettled 0 (Inr ()), FetchSettled 1 (Inr ())] initial_loop)) = 2"
  by (simp add: initial_loop_def initial_gateway_def)

lemmas run_defs = platform_defs crop_reload_failing_platform_def initial_gateway_def
  loadModels_def loadModels_fetch_def detectFace_def cropImageToFace_def
  processImageWithFaceDetection_def original_outcome_def sample_url_def

section \<open>Properties of detectFace\<close>

lemma detectFace_resolves: "\<exists>found. fst (detectFace w g img) = Resolved found"
proof (cases "loadModels w g")
  case (Pair r g1)
  with loadModels_settles [of w g] show ?thesis
    by (cases r) (auto simp: detectFace_def split: sum.splits)
qed

lemma detectFace_not_rejected: "fst (detectFace w g img) \<noteq> Rejected e"
  using detectFace_resolves [of w g img] by auto

lemma detectFace_load_failure:
  "fst (loadModels w g) = Rejected e \<Longrightarrow> fst (detectFace w g img) = Resolved None"
  by (cases "loadModels w g") (simp add: detectFace_def)

lemma detectFace_inference_failure:
  assumes "detectSingleFace w img \<lparr>inputSize = 416, scoreThreshold = 0.5\<rparr> = Inl e"
  shows "fst (detectFace w g img) = Resolved None"
proof (cases "loadModels w g")
  case (Pair r g1)
  with loadModels_settles [of w g] assms show ?thesis
    by (cases r) (auto simp: detectFace_def)
qed

text \<open>
  Claim C5. \<open>detectFace\<close> never rejects: it always resolves, and it resolves with \<open>null\<close>
  whenever \<open>loadModels\<close> rejects and whenever the inference call throws.
\<close>

theorem detectFace_never_rejects:
  "(\<exists>found. fst (detectFace w g img) = Resolved found)
   \<and> (fst (loadModels w g) = Rejected e \<longrightarrow> fst (detectFace w g img) = Resolved None)
   \<and> (detectSingleFace w img \<lparr>inputSize = 416, scoreThreshold = 0.5\<rparr> = Inl e
        \<longrightarrow> fst (detectFace w g img) = Resolved None)"
  using detectFace_resolves detectFace_load_failure detectFace_inference_failure by blast

theorem detectFace_never_rejects_witness:
  "fst (loadModels offline_platform initial_gateway) = Rejected network_error
   \<and> fst (detectFace offline_platform initial_gateway sample_image) = Resolved None
   \<and> detectSingleFace inference_failing_platform sample_image
        \<lparr>inputSize = 416, scoreThreshold = 0.5\<rparr> = Inl inference_error
   \<and> fst (detectFace inference_failing_platform initial_gateway sample_image) = Resolved None"
  using detectFace_never_rejects [of offline_platform initial_gateway sample_image network_error]
    detectFace_never_rejects [of inference_failing_platform initial_gateway sample_image inference_error]
  by (simp add: platform_defs initial_gateway_def loadModels_def loadModels_fetch_def)

section \<open>Properties of processImageWithFaceDetection\<close>

lemma process_undecodable:
  "image_onload w url = None \<Longrightarrow>
     processImageWithFaceDetection w g url = (Rejected (Error ''Failed to load image''), g)"
  by (simp add: processImageWithFaceDetection_def)

lemma process_no_face:
  "image_onload w url = Some img \<Longrightarrow> fst (detectFace w g img) = Resolved None \<Longrightarrow>
     fst (processImageWithFaceDetection w g url) = Resolved (original_outcome url)"
  by (cases "detectFace w g img") (simp add: processImageWithFaceDetection_def)

lemma process_crop_failure:
  "image_onload w url = Some img \<Longrightarrow> fst (detectFace w g img) = Resolved (Some found) \<Longrightarrow>
   cropImageToFace w url found default_padding = Rejected e \<Longrightarrow>
     fst (processImageWithFaceDetection w g url) = Resolved (original_outcome url)"
  by (cases "detectFace w g img") (simp add: processImageWithFaceDetection_def)

lemma process_cropped:
  "image_onload w url = Some img \<Longrightarrow> fst (detectFace w g img) = Resolved (Some found) \<Longrightarrow>
   cropImageToFace w url found default_padding = Resolved cropped \<Longrightarrow>
     fst (processImageWithFaceDetection w g url)
       = Resolved \<lparr>processedImage = cropped, faceDetected = True, detection = Some found\<rparr>"
  by (cases "detectFace w g img") (simp add: processImageWithFaceDetection_def)

text \<open>
  The slip the source leaves open: when the crop never settles, because \<open>drawImage\<close> or
  \<open>toDataURL\<close> threw inside the \<open>onload\<close> handler, the whole call never settles either.
\<close>

lemma process_crop_pending:
  "image_onload w url = Some img \<Longrightarrow> fst (detectFace w g img) = Resolved (Some found) \<Longrightarrow>
   cropImageToFace w url found default_padding = Pending \<Longrightarrow>
     fst (processImageWithFaceDetection w g url) = Pending"
  by (cases "detectFace w g img") (simp add: processImageWithFaceDetection_def)

lemma encode_exception_never_settles:
  "fst (processImageWithFaceDetection encode_failing_platform initial_gateway sample_url) = Pending"
  by (simp add: run_defs encode_failing_platform_def)

text \<open>Every resolution is the original outcome or a cropped one.\<close>

lemma process_resolved_cases:
  assumes "fst (processImageWithFaceDetection w g url) = Resolved r"
  shows "r = original_outcome url
       \<or> (\<exists>found cropped. cropImageToFace w url found default_padding = Resolved cropped
            \<and> r = \<lparr>processedImage = cropped, faceDetected = True, detection = Some found\<rparr>)"
proof (cases "image_onload w url")
  case None
  with assms show ?thesis by (simp add: process_undecodable)
next
  case (Some img)
  obtain found where f: "fst (detectFace w g img) = Resolved found"
    using detectFace_resolves by blast
  show ?thesis
  proof (cases found)
    case None
    with Some f assms show ?thesis by (simp add: process_no_face)
  next
    case (Some face)
    show ?thesis
    proof (cases "cropImageToFace w url face default_padding")
      case (Resolved cropped)
      with \<open>image_onload w url = Some img\<close> f Some assms show ?thesis
        by (auto simp: process_cropped)
    next
      case (Rejected e)
      with \<open>image_onload w url = Some img\<close> f Some assms show ?thesis
        by (auto simp: process_crop_failure)
    next
      case Pending
      with \<open>image_onload w url = Some img\<close> f Some assms show ?thesis
        by (auto simp: process_crop_pending)
    qed
  qed
qed

lemma process_decodable_not_rejected:
  assumes "image_onload w url = Some img"
  shows "fst (processImageWithFaceDetection w g url) \<noteq> Rejected e"
proof -
  obtain found where f: "fst (detectFace w g img) = Resolved found"
    using detectFace_resolves by blast
  show ?thesis
  proof (cases found)
    case None
    with assms f show ?thesis by (simp add: process_no_face)
  next
    case (Some face)
    with assms f show ?thesis
      by (cases "cropImageToFace w url face default_padding")
         (simp_all add: process_cropped process_crop_failure process_crop_pending)
  qed
qed

lemma cropImageToFace_resolved:
  "cropImageToFace w url found p = Resolved cropped \<Longrightarrow>
     \<exists>img. crop_image_onload w url = Some img
       \<and> toDataURL w (crop_canvas img (cropImageToFace_geometry found img p))
            ''image/jpeg'' (js_literal 0.95) = Inr cropped"
  by (auto simp: cropImageToFace_def split: option.splits if_splits sum.splits)

text \<open>
  Claim C4. No-detection passthrough: when the picture decodes and \<open>detectFace\<close> resolves
  with \<open>null\<close>, \<open>processImageWithFaceDetection\<close> resolves with the input string itself as
  \<open>processedImage\<close> and \<open>faceDetected = false\<close>.
\<close>

theorem no_detection_passthrough:
  assumes "image_onload w url = Some img"
    and "fst (detectFace w g img) = Resolved None"
  shows "fst (processImageWithFaceDetection w g url)
       = Resolved \<lparr>processedImage = url, faceDetected = False, detection = None\<rparr>"
  using process_no_face [OF assms] by (simp add: original_outcome_def)

theorem no_detection_passthrough_witness:
  "image_onload faceless_platform sample_url = Some sample_image
   \<and> fst (detectFace faceless_platform initial_gateway sample_image) = Resolved None
   \<and> fst (processImageWithFaceDetection faceless_platform initial_gateway sample_url)
       = Resolved \<lparr>processedImage = sample_url, faceDetected = False, detection = None\<rparr>"
proof -
  have a: "image_onload faceless_platform sample_url = Some sample_image"
    by (simp add: platform_defs)
  have b: "fst (detectFace faceless_platform initial_gateway sample_image) = Resolved None"
    by (simp add: platform_defs initial_gateway_def loadModels_def loadModels_fetch_def
        detectFace_def)
  from a b no_detection_passthrough [OF a b] show ?thesis by simp
qed

text \<open>
  Claim C9. The resolved value has a third field \<open>detection\<close>, and in every resolution it
  is non-null exactly when \<open>faceDetected\<close> is true and null exactly when it is false.
\<close>

theorem detection_field_agrees:
  assumes "fst (processImageWithFaceDetection w g url) = Resolved r"
  shows "(detection r \<noteq> None \<longleftrightarrow> faceDetected r) \<and> (detection r = None \<longleftrightarrow> \<not> faceDetected r)"
  using process_resolved_cases [OF assms] by (auto simp: original_outcome_def)

theorem detection_field_agrees_witness:
  "fst (processImageWithFaceDetection good_platform initial_gateway sample_url)
     = Resolved \<lparr>processedImage = ''data:image/jpeg;base64,BBBB'', faceDetected = True,
                 detection = Some sample_face\<rparr>
   \<and> fst (processImageWithFaceDetection faceless_platform initial_gateway sample_url)
     = Resolved \<lparr>processedImage = sample_url, faceDetected = False, detection = None\<rparr>
   \<and> (detection \<lparr>processedImage = ''data:image/jpeg;base64,BBBB'', faceDetected = True,
                  detection = Some sample_face\<rparr> \<noteq> None)
   \<and> (detection \<lparr>processedImage = sample_url, faceDetected = False,
                  detection = (None :: face_detection option)\<rparr> = None)"
proof -
  have a: "fst (processImageWithFaceDetection good_platform initial_gateway sample_url)
     = Resolved \<lparr>processedImage = ''data:image/jpeg;base64,BBBB'', faceDetected = True,
                 detection = Some sample_face\<rparr>"
    by (simp add: run_defs)
  have b: "fst (processImageWithFaceDetection faceless_platform initial_gateway sample_url)
     = Resolved \<lparr>processedImage = sample_url, faceDetected = False, detection = None\<rparr>"
    by (simp add: run_defs)
  from a b detection_field_agrees [OF a] detection_field_agrees [OF b] show ?thesis by simp
qed

text \<open>
  Claim C10. Whenever the call resolves with \<open>faceDetected = true\<close>, the processed picture
  is what \<open>canvas.toDataURL\<close> returns for the type \<open>image/jpeg\<close> and the quality 0.95 on
  the crop canvas. Type and quality are constants: they do not depend on the input string,
  so a PNG input is not kept as PNG.
\<close>

theorem face_path_encodes_jpeg:
  assumes "fst (processImageWithFaceDetection w g url) = Resolved r"
    and "faceDetected r"
  shows "\<exists>img found. crop_image_onload w url = Some img \<and> detection r = Some found
       \<and> toDataURL w (crop_canvas img (cropImageToFace_geometry found img default_padding))
              ''image/jpeg'' (js_literal 0.95)
          = Inr (processedImage r)"
proof -
  from process_resolved_cases [OF assms(1)] assms(2)
  obtain found cropped where c: "cropImageToFace w url found default_padding = Resolved cropped"
    and r: "r = \<lparr>processedImage = cropped, faceDetected = True, detection = Some found\<rparr>"
    by (auto simp: original_outcome_def)
  from cropImageToFace_resolved [OF c] r show ?thesis by auto
qed

theorem face_path_encodes_jpeg_witness:
  "fst (processImageWithFaceDetection good_platform initial_gateway ''data:image/png;base64,AAAA'')
     = Resolved \<lparr>processedImage = ''data:image/jpeg;base64,BBBB'', faceDetected = True,
                 detection = Some sample_face\<rparr>
   \<and> faceDetected \<lparr>processedImage = ''data:image/jpeg;base64,BBBB'', faceDetected = True,
                 detection = Some sample_face\<rparr>
   \<and> toDataURL good_platform
         (crop_canvas sample_image
            (cropImageToFace_geometry sample_face sample_image default_padding))
         ''image/jpeg'' (js_literal 0.95)
       = Inr ''data:image/jpeg;base64,BBBB''"
proof -
  have a: "fst (processImageWithFaceDetection good_platform initial_gateway ''data:image/png;base64,AAAA'')
     = Resolved \<lparr>processedImage = ''data:image/jpeg;base64,BBBB'', faceDetected = True,
                 detection = Some sample_face\<rparr>"
    by (simp add: run_defs)
  have b: "faceDetected \<lparr>processedImage = ''data:image/jpeg;base64,BBBB'', faceDetected = True,
                 detection = Some sample_face\<rparr>" by simp
  have c: "crop_image_onload good_platform u = Some sample_image" for u
    by (simp add: good_platform_def)
  from face_path_encodes_jpeg [OF a b] a b show ?thesis
    by (simp add: c)
qed

text \<open>
  An input that the browser cannot decode: the call rejects, it does not resolve with the
  original string.
\<close>

theorem fallback_totality_counterexample:
  "fst (processImageWithFaceDetection undecodable_platform initial_gateway sample_url)
     = Rejected (Error ''Failed to load image'')"
  by (simp add: processImageWithFaceDetection_def undecodable_platform_def good_platform_def)

text \<open>
  Claim C1, amended. For every input that decodes, the call never rejects, and it resolves
  with the original string, \<open>faceDetected = false\<close> and \<open>detection = null\<close> whenever
  \<open>loadModels\<close> rejects or the inference throws, and whenever a face was found but the
  promise of \<open>cropImageToFace\<close> rejects (the picture does not load again, or there is no
  2D context). When the input does not decode, the call rejects with the error
  \<open>Failed to load image\<close>. An exception thrown by \<open>drawImage\<close> or \<open>toDataURL\<close> is not
  covered by this statement.
\<close>

theorem fallback_after_decoding:
  "(image_onload w url = Some img \<longrightarrow>
      fst (processImageWithFaceDetection w g url) \<noteq> Rejected e'
      \<and> (fst (loadModels w g) = Rejected e
           \<or> detectSingleFace w img \<lparr>inputSize = 416, scoreThreshold = 0.5\<rparr> = Inl e
          \<longrightarrow> fst (processImageWithFaceDetection w g url)
                = Resolved \<lparr>processedImage = url, faceDetected = False, detection = None\<rparr>)
      \<and> (fst (detectFace w g img) = Resolved (Some found)
           \<and> cropImageToFace w url found default_padding = Rejected e
          \<longrightarrow> fst (processImageWithFaceDetection w g url)
                = Resolved \<lparr>processedImage = url, faceDetected = False, detection = None\<rparr>))
   \<and> (image_onload w url = None \<longrightarrow>
        fst (processImageWithFaceDetection w g url) = Rejected (Error ''Failed to load image''))"
proof (intro conjI impI)
  assume "image_onload w url = Some img"
  then show "fst (processImageWithFaceDetection w g url) \<noteq> Rejected e'"
    by (rule process_decodable_not_rejected)
next
  assume i: "image_onload w url = Some img"
    and "fst (loadModels w g) = Rejected e
           \<or> detectSingleFace w img \<lparr>inputSize = 416, scoreThreshold = 0.5\<rparr> = Inl e"
  then have "fst (detectFace w g img) = Resolved None"
    using detectFace_load_failure detectFace_inference_failure by blast
  from process_no_face [OF i this]
  show "fst (processImageWithFaceDetection w g url)
                = Resolved \<lparr>processedImage = url, faceDetected = False, detection = None\<rparr>"
    by (simp add: original_outcome_def)
next
  assume i: "image_onload w url = Some img"
    and "fst (detectFace w g img) = Resolved (Some found)
           \<and> cropImageToFace w url found default_padding = Rejected e"
  then have "fst (processImageWithFaceDetection w g url) = Resolved (original_outcome url)"
    by (simp add: process_crop_failure)
  then show "fst (processImageWithFaceDetection w g url)
                = Resolved \<lparr>processedImage = url, faceDetected = False, detection = None\<rparr>"
    by (simp add: original_outcome_def)
next
  assume "image_onload w url = None"
  then show "fst (processImageWithFaceDetection w g url) = Rejected (Error ''Failed to load image'')"
    by (simp add: process_undecodable)
qed

theorem fallback_after_decoding_witness:
  "image_onload offline_platform sample_url = Some sample_image
   \<and> fst (loadModels offline_platform initial_gateway) = Rejected network_error
   \<and> fst (processImageWithFaceDetection offline_platform initial_gateway sample_url)
       = Resolved \<lparr>processedImage = sample_url, faceDetected = False, detection = None\<rparr>
   \<and> detectSingleFace inference_failing_platform sample_image
        \<lparr>inputSize = 416, scoreThreshold = 0.5\<rparr> = Inl inference_error
   \<and> fst (processImageWithFaceDetection inference_failing_platform initial_gateway sample_url)
       = Resolved \<lparr>processedImage = sample_url, faceDetected = False, detection = None\<rparr>
   \<and> fst (detectFace no_context_platform initial_gateway sample_image) = Resolved (Some sample_face)
   \<and> cropImageToFace no_context_platform sample_url sample_face default_padding
       = Rejected (Error ''Could not get canvas context'')
   \<and> fst (processImageWithFaceDetection no_context_platform initial_gateway sample_url)
       = Resolved \<lparr>processedImage = sample_url, faceDetected = False, detection = None\<rparr>
   \<and> cropImageToFace crop_reload_failing_platform sample_url sample_face default_padding
       = Rejected (Error ''Failed to load image for cropping'')
   \<and> fst (processImageWithFaceDetection crop_reload_failing_platform initial_gateway sample_url)
       = Resolved \<lparr>processedImage = sample_url, faceDetected = False, detection = None\<rparr>
   \<and> fst (processImageWithFaceDetection good_platform initial_gateway sample_url)
       \<noteq> Rejected network_error
   \<and> image_onload undecodable_platform sample_url = None
   \<and> fst (processImageWithFaceDetection undecodable_platform initial_gateway sample_url)
       = Rejected (Error ''Failed to load image'')"
  using fallback_after_decoding
      [of offline_platform sample_url sample_image initial_gateway _ network_error]
    fallback_after_decoding
      [of inference_failing_platform sample_url sample_image initial_gateway _ inference_error]
    fallback_after_decoding
      [of no_context_platform sample_url sample_image initial_gateway _
          "Error ''Could not get canvas context''" sample_face]
    fallback_after_decoding
      [of crop_reload_failing_platform sample_url sample_image initial_gateway _
          "Error ''Failed to load image for cropping''" sample_face]
    fallback_after_decoding
      [of good_platform sample_url sample_image initial_gateway network_error]
    fallback_after_decoding [of undecodable_platform sample_url]
  by (simp add: platform_defs crop_reload_failing_platform_def initial_gateway_def
      loadModels_def loadModels_fetch_def detectFace_def cropImageToFace_def)

end
